theory Spec2Isabelle
  imports Main "HOL-Library.AList" "HOL-Library.Multiset"
begin

section \<open>Values, objects and multipart parts\<close>

text \<open>
  The repository holds two variants of one Fastify server: \<^verbatim>\<open>server/index.js\<close>, which
  writes every uploaded file into an uploads directory (the persisting variant), and a
  second entry file which keeps only the descriptive metadata of an upload (the
  metadata-only variant). Both declare the same two routes.
\<close>

datatype variant = Persisting | MetadataOnly

text \<open>
  \<^verbatim>\<open>fileData\<close>: the object pushed into a category list. The persisting variant fills all
  five properties; the metadata-only variant has no \<^verbatim>\<open>path\<close> and no \<^verbatim>\<open>filename\<close>.
\<close>

record fileData =
  originalname :: string
  mimetype :: string
  size_bytes :: nat
  path :: "string option"
  filename :: "string option"

datatype jsval =
    JString string
  | JNumber int
  | JDate nat
  | JObjectId nat
  | JFileList "fileData list"
  | JParsed string

text \<open>A plain JavaScript object: its own properties, as an association list.\<close>

type_synonym obj = "(string \<times> jsval) list"

text \<open>
  \<^verbatim>\<open>part.value\<close> of a part that is not a file: the decoded text, or a value that is not
  a string (the multipart plugin hands over a parsed value for a field sent as JSON).
\<close>

datatype field_value = Text string | Parsed string

fun to_js :: "field_value \<Rightarrow> jsval" where
  "to_js (Text s) = JString s"
| "to_js (Parsed s) = JParsed s"

text \<open>
  The stream of a file part as the handler receives it: \<open>content\<close> are the bytes that
  arrive on it, \<open>bytesRead\<close> is the counter of the stream at the moment the part is handed
  over, \<open>stream_error\<close> is set when the stream ends with an \<^verbatim>\<open>error\<close> event instead
  of \<^verbatim>\<open>end\<close>.
\<close>

record file_stream =
  content :: string
  bytesRead :: nat
  stream_error :: "string option"

text \<open>
  What the surroundings do while a file part is handled: the reading of \<^verbatim>\<open>Date.now()\<close>,
  and whether the write stream opened on the uploads directory emits an error while the
  stream of the part has not yet ended, that is, while the handler awaits it. An error
  that the write stream emits later does not touch the run of the handler, which has
  gone on by then and pushes the record; such a run is one with \<open>write_fault = None\<close>.
\<close>

record sink_env =
  date_now :: nat
  write_fault :: "string option"

datatype part =
    is_file: FilePart (fieldname: string) (part_filename: string) (part_mimetype: string)
      (part_file: file_stream) (sink: sink_env)
  | FieldPart (fieldname: string) (part_value: field_value)

datatype error =
    TypeError string
  | StreamError string
  | StorageError string
  | PersistenceError string

fun error_message :: "error \<Rightarrow> string" where
  "error_message (TypeError m) = m"
| "error_message (StreamError m) = m"
| "error_message (StorageError m) = m"
| "error_message (PersistenceError m) = m"

text \<open>
  How an awaited step ends: it returns, it throws into the enclosing \<^verbatim>\<open>try\<close>, or an
  \<^verbatim>\<open>error\<close> event is emitted on an emitter that has no listener for it, which Node
  raises as an uncaught exception outside the handler.
\<close>

datatype 'a outcome = Returned 'a | Thrown error | Uncaught error

text \<open>
  The state outside one request: the collection of stored documents, the write streams
  the handler has opened (for each, in order, the path it was opened on and the bytes
  arriving on the stream of the part that is piped into it), and the lines written with
  \<^verbatim>\<open>console.error\<close>. The handler never waits for a write stream: when the bytes reach
  the file, and whether they do, is not up to it and is not part of the state.
\<close>

record world =
  store :: "obj list"
  piped :: "(string \<times> string) list"
  console :: "string list"

text \<open>
  The request as the handler reads it. \<open>parts_error\<close> is set when the iterator of
  \<^verbatim>\<open>req.parts()\<close> throws after the listed parts (client abort, malformed body).
\<close>

record request =
  parts :: "part list"
  parts_error :: "string option"
  ip :: string
  user_agent :: "string option"

text \<open>
  What the surroundings supply to one request: the working directory of the process, the
  clock and the fresh identifier used by the document store, and whether the store is
  out of reach or refuses the document for a reason of its own.
\<close>

record env =
  cwd :: string
  save_time :: nat
  object_id :: nat
  store_fault :: "string option"

datatype json =
    Success_id string jsval
  | Success_list nat "obj list"
  | Failure string

datatype reply = Reply (status: nat) (sent: json)

section \<open>JavaScript object access\<close>

definition object_prototype_names :: "string list" where
  "object_prototype_names =
     [''constructor'', ''__defineGetter__'', ''__defineSetter__'', ''hasOwnProperty'',
      ''__lookupGetter__'', ''__lookupSetter__'', ''isPrototypeOf'',
      ''propertyIsEnumerable'', ''toString'', ''valueOf'', ''__proto__'',
      ''toLocaleString'']"

text \<open>
  \<^verbatim>\<open>o[k]\<close> on an object literal: an own property, else a property inherited from
  \<^verbatim>\<open>Object.prototype\<close> (a function or the prototype itself, never an array), else
  \<^verbatim>\<open>undefined\<close>.
\<close>

datatype lookup = Own jsval | Inherited | Undefined

definition js_get :: "obj \<Rightarrow> string \<Rightarrow> lookup" where
  "js_get ob k =
     (case map_of ob k of
        Some v \<Rightarrow> Own v
      | None \<Rightarrow> if k \<in> set object_prototype_names then Inherited else Undefined)"

fun truthy :: "lookup \<Rightarrow> bool" where
  "truthy (Own (JString s)) = (s \<noteq> [])"
| "truthy (Own (JNumber n)) = (n \<noteq> 0)"
| "truthy (Own v) = True"
| "truthy Inherited = True"
| "truthy Undefined = False"

text \<open>
  \<^verbatim>\<open>o[k] = v\<close>: an own property is created or overwritten, except for the key
  \<^verbatim>\<open>__proto__\<close>, whose inherited setter creates no own property.
\<close>

definition js_set :: "obj \<Rightarrow> string \<Rightarrow> jsval \<Rightarrow> obj" where
  "js_set ob k v = (if k = ''__proto__'' then ob else AList.update k v ob)"

text \<open>\<^verbatim>\<open>{...target, ...src}\<close>: the own properties of \<open>src\<close> are defined on \<open>target\<close> in order.\<close>

definition spread :: "obj \<Rightarrow> obj \<Rightarrow> obj" where
  "spread target src = fold (\<lambda>kv. AList.update (fst kv) (snd kv)) src target"

text \<open>\<^verbatim>\<open>o[k].push(x)\<close>: only an array has \<^verbatim>\<open>push\<close>.\<close>

definition quote :: "string \<Rightarrow> string" where
  "quote s = [CHR 0x27] @ s @ [CHR 0x27]"

definition js_push :: "obj \<Rightarrow> string \<Rightarrow> fileData \<Rightarrow> error + obj" where
  "js_push ob k x =
     (case js_get ob k of
        Own (JFileList xs) \<Rightarrow> Inr (AList.update k (JFileList (xs @ [x])) ob)
      | Own _ \<Rightarrow> Inl (TypeError ''files[part.fieldname].push is not a function'')
      | Inherited \<Rightarrow> Inl (TypeError ''files[part.fieldname].push is not a function'')
      | Undefined \<Rightarrow>
          Inl (TypeError (''Cannot read properties of undefined (reading '' @ quote ''push'' @ '')'')))"

section \<open>Paths and the clock\<close>

function string_of_nat :: "nat \<Rightarrow> string" where
  "string_of_nat n =
     (if n < 10 then [''0123456789'' ! n]
      else string_of_nat (n div 10) @ [''0123456789'' ! (n mod 10)])"
  by pat_completeness auto
termination
  by (relation "measure id") auto

fun split_slash :: "string \<Rightarrow> string list" where
  "split_slash [] = [[]]"
| "split_slash (c # cs) =
     (if c = CHR ''/'' then [] # split_slash cs
      else (case split_slash cs of
              s # ss \<Rightarrow> (c # s) # ss
            | [] \<Rightarrow> [[c]]))"

fun join_slash :: "string list \<Rightarrow> string" where
  "join_slash [] = []"
| "join_slash [s] = s"
| "join_slash (s # ss) = s @ ''/'' @ join_slash ss"

text \<open>
  \<^verbatim>\<open>normalizeString\<close> of Node's POSIX \<^verbatim>\<open>path\<close> module, on the segments between
  slashes; the accumulator holds the kept segments, last one first.
\<close>

fun normalizeString :: "bool \<Rightarrow> string list \<Rightarrow> string list \<Rightarrow> string list" where
  "normalizeString allowAboveRoot [] acc = rev acc"
| "normalizeString allowAboveRoot (s # ss) acc =
     (if s = [] \<or> s = ''.'' then normalizeString allowAboveRoot ss acc
      else if s = ''..'' then
        (case acc of
           a # as \<Rightarrow>
             if a \<noteq> ''..'' then normalizeString allowAboveRoot ss as
             else normalizeString allowAboveRoot ss (if allowAboveRoot then s # acc else acc)
         | [] \<Rightarrow> normalizeString allowAboveRoot ss (if allowAboveRoot then [s] else []))
      else normalizeString allowAboveRoot ss (s # acc))"

definition path_normalize :: "string \<Rightarrow> string" where
  "path_normalize p =
     (if p = [] then ''.''
      else
        let isAbsolute = (hd p = CHR ''/'');
            trailingSeparator = (last p = CHR ''/'');
            q = join_slash (normalizeString (\<not> isAbsolute) (split_slash p) [])
        in if q = [] then
             (if isAbsolute then ''/'' else if trailingSeparator then ''./'' else ''.'')
           else (if isAbsolute then ''/'' else []) @ q @ (if trailingSeparator then ''/'' else []))"

definition path_join :: "string list \<Rightarrow> string" where
  "path_join args =
     (let joined = join_slash (filter (\<lambda>a. a \<noteq> []) args)
      in if joined = [] then ''.'' else path_normalize joined)"

definition path_basename :: "string \<Rightarrow> string" where
  "path_basename p =
     (case dropWhile (\<lambda>s. s = []) (rev (split_slash p)) of
        [] \<Rightarrow> []
      | s # _ \<Rightarrow> s)"

definition UPLOADS_DIR :: "string \<Rightarrow> string" where
  "UPLOADS_DIR dir = path_join [dir, ''uploads'']"

section \<open>The File Sink\<close>

definition savePath :: "string \<Rightarrow> nat \<Rightarrow> string \<Rightarrow> string" where
  "savePath dir now name = path_join [UPLOADS_DIR dir, string_of_nat now @ ''-'' @ name]"

text \<open>\<^verbatim>\<open>n || 0\<close> on a number.\<close>

definition or_zero :: "nat \<Rightarrow> nat" where
  "or_zero n = (if n = 0 then 0 else n)"

text \<open>
  \<^verbatim>\<open>fs.createWriteStream(savePath)\<close> and \<^verbatim>\<open>await new Promise(...)\<close> of the persisting
  variant: a write stream is opened on \<open>target\<close> and the part's stream is piped into it,
  whatever happens next; the promise resolves on the \<^verbatim>\<open>end\<close> event of the part's stream
  and rejects on its \<^verbatim>\<open>error\<close> event. Nothing awaits the write stream, and it has no
  \<^verbatim>\<open>error\<close> listener of the handler: an error it emits while the promise is pending
  settles nothing and is raised as an uncaught exception.
\<close>

definition pipe_and_wait ::
  "string \<Rightarrow> file_stream \<Rightarrow> sink_env \<Rightarrow> world \<Rightarrow> file_stream outcome \<times> world" where
  "pipe_and_wait target f se w =
     (let w' = w\<lparr>piped := piped w @ [(target, content f)]\<rparr>
      in case write_fault se of
           Some m \<Rightarrow> (Uncaught (StorageError m), w')
         | None \<Rightarrow>
             (case stream_error f of
                Some m \<Rightarrow> (Thrown (StreamError m), w')
              | None \<Rightarrow> (Returned (f\<lparr>bytesRead := length (content f)\<rparr>), w')))"

text \<open>
  The persisting sink (\<^verbatim>\<open>server/index.js\<close>, the file branch of the loop up to
  \<^verbatim>\<open>fileData\<close>): the record it builds and the stream as it leaves it.
\<close>

definition persisting_sink ::
  "string \<Rightarrow> string \<Rightarrow> string \<Rightarrow> file_stream \<Rightarrow> sink_env \<Rightarrow> world
     \<Rightarrow> (fileData \<times> file_stream) outcome \<times> world" where
  "persisting_sink dir fname mime f se w =
     (let target = savePath dir (date_now se) fname
      in case pipe_and_wait target f se w of
           (Returned f', w') \<Rightarrow>
             (Returned
                (\<lparr>originalname = fname, mimetype = mime,
                  size_bytes = or_zero (bytesRead f'),
                  path = Some target, filename = Some (path_basename target)\<rparr>, f'), w')
         | (Thrown err, w') \<Rightarrow> (Thrown err, w')
         | (Uncaught err, w') \<Rightarrow> (Uncaught err, w'))"

text \<open>
  The metadata-only sink: the object literal pushed by the second variant. Nothing reads
  the stream; the size is the counter as it stands.
\<close>

definition metadata_sink :: "string \<Rightarrow> string \<Rightarrow> file_stream \<Rightarrow> fileData \<times> file_stream" where
  "metadata_sink fname mime f =
     (\<lparr>originalname = fname, mimetype = mime, size_bytes = bytesRead f,
       path = None, filename = None\<rparr>, f)"

section \<open>The loop over the parts\<close>

definition categories :: "string list" where
  "categories =
     [''identityDocument'', ''residencyProof'', ''qualifications'', ''businessPermit'',
      ''liabilityInsurance'', ''companyStatutes'']"

definition files_init :: obj where
  "files_init =
     [(''identityDocument'', JFileList []), (''residencyProof'', JFileList []),
      (''qualifications'', JFileList []), (''businessPermit'', JFileList []),
      (''liabilityInsurance'', JFileList []), (''companyStatutes'', JFileList [])]"

text \<open>The body of \<^verbatim>\<open>for await (const part of parts)\<close> in \<^verbatim>\<open>server/index.js\<close>.\<close>

fun handle_part_persisting ::
  "string \<Rightarrow> part \<Rightarrow> obj \<times> obj \<Rightarrow> world \<Rightarrow> (obj \<times> obj) outcome \<times> world" where
  "handle_part_persisting dir (FilePart name fname mime f se) (body, files) w =
     (case persisting_sink dir fname mime f se w of
        (Returned (fd, f'), w') \<Rightarrow>
          if truthy (js_get files name) then
            (case js_push files name fd of
               Inl err \<Rightarrow> (Thrown err, w')
             | Inr files' \<Rightarrow> (Returned (body, files'), w'))
          else (Returned (body, files), w')
      | (Thrown err, w') \<Rightarrow> (Thrown err, w')
      | (Uncaught err, w') \<Rightarrow> (Uncaught err, w'))"
| "handle_part_persisting dir (FieldPart name v) (body, files) w =
     (Returned (js_set body name (to_js v), files), w)"

text \<open>\<^verbatim>\<open>typeof part.value === 'string'\<close>.\<close>

fun is_string :: "field_value \<Rightarrow> bool" where
  "is_string (Text s) = True"
| "is_string (Parsed s) = False"

text \<open>The body of the loop in the metadata-only variant.\<close>

fun handle_part_metadata :: "part \<Rightarrow> obj \<times> obj \<Rightarrow> (obj \<times> obj) outcome" where
  "handle_part_metadata (FilePart name fname mime f se) (body, files) =
     (if name \<noteq> [] then
        (case js_push files name (fst (metadata_sink fname mime f)) of
           Inl err \<Rightarrow> Thrown err
         | Inr files' \<Rightarrow> Returned (body, files'))
      else Returned (body, files))"
| "handle_part_metadata (FieldPart name v) (body, files) =
     (if name \<noteq> [] \<and> is_string v then Returned (js_set body name (to_js v), files)
      else Returned (body, files))"

fun handle_part ::
  "variant \<Rightarrow> string \<Rightarrow> part \<Rightarrow> obj \<times> obj \<Rightarrow> world \<Rightarrow> (obj \<times> obj) outcome \<times> world" where
  "handle_part Persisting dir p st w = handle_part_persisting dir p st w"
| "handle_part MetadataOnly dir p st w = (handle_part_metadata p st, w)"

fun run_parts ::
  "variant \<Rightarrow> string \<Rightarrow> part list \<Rightarrow> obj \<times> obj \<Rightarrow> world \<Rightarrow> (obj \<times> obj) outcome \<times> world" where
  "run_parts v dir [] st w = (Returned st, w)"
| "run_parts v dir (p # ps) st w =
     (case handle_part v dir p st w of
        (Returned st', w') \<Rightarrow> run_parts v dir ps st' w'
      | (Thrown err, w') \<Rightarrow> (Thrown err, w')
      | (Uncaught err, w') \<Rightarrow> (Uncaught err, w'))"

text \<open>The whole loop, from the empty \<^verbatim>\<open>body\<close> and the six empty lists of \<^verbatim>\<open>files\<close>.\<close>

definition receive ::
  "variant \<Rightarrow> string \<Rightarrow> request \<Rightarrow> world \<Rightarrow> (obj \<times> obj) outcome \<times> world" where
  "receive v dir req w =
     (case run_parts v dir (parts req) ([], files_init) w of
        (Returned st, w') \<Rightarrow>
          (case parts_error req of
             Some m \<Rightarrow> (Thrown (StreamError m), w')
           | None \<Rightarrow> (Returned st, w'))
      | (Thrown err, w') \<Rightarrow> (Thrown err, w')
      | (Uncaught err, w') \<Rightarrow> (Uncaught err, w'))"

section \<open>Assembling and storing the submission\<close>

fun fallback_user_agent :: "variant \<Rightarrow> string" where
  "fallback_user_agent Persisting = ''Unknown''"
| "fallback_user_agent MetadataOnly = ''Unknown User Agent''"

text \<open>\<^verbatim>\<open>req.headers['user-agent'] || fallback\<close>: a missing or empty header is falsy.\<close>

definition header_or :: "string option \<Rightarrow> string \<Rightarrow> string" where
  "header_or h d = (case h of None \<Rightarrow> d | Some s \<Rightarrow> if s = [] then d else s)"

text \<open>
  The argument of \<^verbatim>\<open>new FormSubmission\<close>:
  \<^verbatim>\<open>{...body, ...files, ipAddress: req.ip, userAgent: ...}\<close>.
\<close>

definition assemble :: "variant \<Rightarrow> request \<Rightarrow> obj \<Rightarrow> obj \<Rightarrow> obj" where
  "assemble v req body files =
     spread (spread (spread [] body) files)
       [(''ipAddress'', JString (ip req)),
        (''userAgent'', JString (header_or (user_agent req) (fallback_user_agent v)))]"

text \<open>The \<^verbatim>\<open>unique\<close> option of the \<^verbatim>\<open>email\<close> path in the two schemas.\<close>

fun email_unique :: "variant \<Rightarrow> bool" where
  "email_unique Persisting = True"
| "email_unique MetadataOnly = False"

text \<open>
  Modelled from the spec: the system attributes of a stored submission (the store behind
  \<^verbatim>\<open>submission.save()\<close> is Mongoose and MongoDB, which are not part of the repository):
  its generated identifier and, the schema having \<^verbatim>\<open>timestamps: true\<close>, its creation and
  modification times, and the version key.
\<close>

definition system_fields :: "env \<Rightarrow> obj" where
  "system_fields e =
     [(''_id'', JObjectId (object_id e)), (''createdAt'', JDate (save_time e)),
      (''updatedAt'', JDate (save_time e)), (''__v'', JNumber 0)]"

text \<open>
  Modelled from the spec: \<^verbatim>\<open>save(record)\<close> of the store behind \<^verbatim>\<open>submission.save()\<close>.
  Saving fails with a persistence error when the store is out of reach (or refuses the
  document for a reason of its own) or when the uniqueness constraint on the email,
  where the schema enables it, is violated by a stored document with the same email
  value; otherwise the record is stored once, with its system attributes. The casting
  of values by the schema is not modelled.
\<close>

definition store_save :: "bool \<Rightarrow> env \<Rightarrow> obj \<Rightarrow> obj list \<Rightarrow> error + (jsval \<times> obj list)" where
  "store_save unique e submission st =
     (case store_fault e of
        Some m \<Rightarrow> Inl (PersistenceError m)
      | None \<Rightarrow>
          if unique \<and> map_of submission ''email'' \<in> set (map (\<lambda>d. map_of d ''email'') st)
          then Inl (PersistenceError ''E11000 duplicate key error'')
          else Inr (JObjectId (object_id e), st @ [spread submission (system_fields e)]))"

section \<open>The two routes\<close>

text \<open>
  The line of \<^verbatim>\<open>console.error\<close> in the \<^verbatim>\<open>catch\<close> block; of the error object that the
  persisting variant prints, the message is kept.
\<close>

fun log_line :: "variant \<Rightarrow> error \<Rightarrow> string" where
  "log_line Persisting err = ''Error submitting form: '' @ error_message err"
| "log_line MetadataOnly err =
     [CHR 0xE2, CHR 0x9D, CHR 0x8C] @ '' Internal server error: '' @ error_message err"

fun success_message :: "variant \<Rightarrow> string" where
  "success_message Persisting = ''Form submitted successfully!''"
| "success_message MetadataOnly = ''Formulaire soumis avec succ'' @ [CHR 0xC3, CHR 0xA8] @ ''s''"

text \<open>The \<^verbatim>\<open>catch\<close> block of \<^verbatim>\<open>POST /api/submit-form\<close>.\<close>

definition on_error :: "variant \<Rightarrow> error \<Rightarrow> world \<Rightarrow> reply option \<times> world" where
  "on_error v err w =
     (Some (Reply 500 (Failure ''Internal server error'')),
      w\<lparr>console := console w @ [log_line v err]\<rparr>)"

text \<open>
  \<^verbatim>\<open>POST /api/submit-form\<close>. The reply is \<open>None\<close> when the handler never replies because
  an uncaught exception ended the process.
\<close>

definition submit_form :: "variant \<Rightarrow> env \<Rightarrow> request \<Rightarrow> world \<Rightarrow> reply option \<times> world" where
  "submit_form v e req w =
     (case receive v (cwd e) req w of
        (Uncaught err, w') \<Rightarrow> (None, w')
      | (Thrown err, w') \<Rightarrow> on_error v err w'
      | (Returned (body, files), w') \<Rightarrow>
          (case store_save (email_unique v) e (assemble v req body files) (store w') of
             Inl err \<Rightarrow> on_error v err w'
           | Inr (ident, st') \<Rightarrow>
               (Some (Reply 200 (Success_id (success_message v) ident)), w'\<lparr>store := st'\<rparr>)))"

text \<open>
  The query of \<^verbatim>\<open>GET /api/submissions\<close>:
  \<^verbatim>\<open>find({}).select('-__v -updatedAt -ipAddress -userAgent').sort({createdAt: -1}).lean()\<close>.
  Documents with equal creation times come in an order the store does not fix; here the
  later stored one comes first.
\<close>

definition select_minus :: "string list \<Rightarrow> obj \<Rightarrow> obj" where
  "select_minus ks d = fold AList.delete ks d"

definition createdAt_of :: "obj \<Rightarrow> nat" where
  "createdAt_of d = (case map_of d ''createdAt'' of Some (JDate t) \<Rightarrow> t | _ \<Rightarrow> 0)"

definition listRecent :: "obj list \<Rightarrow> obj list" where
  "listRecent st =
     rev (sort_key createdAt_of
            (map (select_minus [''__v'', ''updatedAt'', ''ipAddress'', ''userAgent'']) st))"

text \<open>
  \<^verbatim>\<open>GET /api/submissions\<close>; \<open>fault\<close> is set when the query throws. The persisting variant
  logs the error, the other one its message.
\<close>

definition get_submissions :: "variant \<Rightarrow> string option \<Rightarrow> world \<Rightarrow> reply \<times> world" where
  "get_submissions v fault w =
     (case fault of
        Some m \<Rightarrow>
          (Reply 500 (Failure ''Failed to fetch submissions''),
           w\<lparr>console := console w @ [''Fetch error: '' @ m]\<rparr>)
      | None \<Rightarrow>
          (let submissions = listRecent (store w)
           in (Reply 200 (Success_list (length submissions) submissions), w)))"

section \<open>What the loop is expected to leave\<close>

text \<open>
  The condition under which the loop assigns a part to \<^verbatim>\<open>body\<close>: any part that is not a
  file in the persisting variant; a part with a non-empty name and a string value in the
  metadata-only variant.
\<close>

fun stores_field :: "variant \<Rightarrow> part \<Rightarrow> bool" where
  "stores_field v (FilePart name fname mime f se) = False"
| "stores_field Persisting (FieldPart name x) = True"
| "stores_field MetadataOnly (FieldPart name x) = (name \<noteq> [] \<and> is_string x)"

text \<open>The value of the last part assigned to \<^verbatim>\<open>body\<close> under the name \<open>k\<close>.\<close>

fun last_field :: "variant \<Rightarrow> string \<Rightarrow> part list \<Rightarrow> field_value option" where
  "last_field v k [] = None"
| "last_field v k (p # ps) =
     (case last_field v k ps of
        Some x \<Rightarrow> Some x
      | None \<Rightarrow> if stores_field v p \<and> fieldname p = k then Some (part_value p) else None)"

text \<open>The file parts sent under the field name \<open>c\<close>, in arrival order.\<close>

definition files_under :: "string \<Rightarrow> part list \<Rightarrow> part list" where
  "files_under c ps = filter (\<lambda>p. is_file p \<and> fieldname p = c) ps"

text \<open>The record a variant builds for a file part whose stream ends without error.\<close>

fun expected_record :: "variant \<Rightarrow> string \<Rightarrow> part \<Rightarrow> fileData" where
  "expected_record Persisting dir p =
     \<lparr>originalname = part_filename p, mimetype = part_mimetype p,
      size_bytes = length (content (part_file p)),
      path = Some (savePath dir (date_now (sink p)) (part_filename p)),
      filename = Some (path_basename (savePath dir (date_now (sink p)) (part_filename p)))\<rparr>"
| "expected_record MetadataOnly dir p =
     \<lparr>originalname = part_filename p, mimetype = part_mimetype p,
      size_bytes = bytesRead (part_file p), path = None, filename = None\<rparr>"

text \<open>Whether a value is a list of file records.\<close>

definition is_list :: "jsval \<Rightarrow> bool" where
  "is_list v = (case v of JFileList xs \<Rightarrow> True | _ \<Rightarrow> False)"

text \<open>The shape of \<^verbatim>\<open>files\<close> throughout the loop: the six keys, each holding a list.\<close>

definition files_ok :: "obj \<Rightarrow> bool" where
  "files_ok files = (map fst files = categories \<and> list_all (\<lambda>kv. is_list (snd kv)) files)"

text \<open>The path under which the persisting variant writes a file part.\<close>

definition target_of :: "string \<Rightarrow> part \<Rightarrow> string" where
  "target_of dir p = savePath dir (date_now (sink p)) (part_filename p)"

text \<open>A stored document carries its creation time and its identifier.\<close>

definition has_system_fields :: "obj \<Rightarrow> bool" where
  "has_system_fields d = (''createdAt'' \<in> fst ` set d \<and> ''_id'' \<in> fst ` set d)"

text \<open>The server over time: the requests to the submit route, one after the other.\<close>

fun serve :: "variant \<Rightarrow> (env \<times> request) list \<Rightarrow> world \<Rightarrow> world" where
  "serve v [] w = w"
| "serve v (er # rs) w = serve v rs (snd (submit_form v (fst er) (snd er) w))"

section \<open>Sample inputs\<close>

text \<open>
  Two stored documents, and requests against a server that runs in \<^verbatim>\<open>/srv/app\<close>:
  \<open>request1\<close> has two scalar fields, a file under a category and a file under the name
  \<^verbatim>\<open>avatar\<close>, and \<open>world1\<close> is the state the persisting variant reaches with it from the
  empty state \<open>world0\<close>; \<open>request2\<close> has no file; \<open>request_dup\<close> repeats the email of
  \<open>request1\<close>; \<open>request_disk_full\<close> meets a failing write stream; \<open>request_spoof\<close>
  names a scalar field \<^verbatim>\<open>userAgent\<close>; \<open>request_twice\<close> sends one field name twice;
  \<open>request_collide\<close> sends two files of one name, one of them under \<^verbatim>\<open>avatar\<close>,
  that meet the same reading of the clock.
\<close>

definition docA :: obj where
  "docA = [(''email'', JString ''a@x.com''), (''ipAddress'', JString ''10.0.0.1''),
           (''userAgent'', JString ''curl''), (''_id'', JObjectId 1), (''createdAt'', JDate 3),
           (''updatedAt'', JDate 3), (''__v'', JNumber 0)]"

definition docB :: obj where
  "docB = [(''email'', JString ''b@x.com''), (''ipAddress'', JString ''10.0.0.2''),
           (''userAgent'', JString ''Unknown''), (''_id'', JObjectId 2), (''createdAt'', JDate 5),
           (''updatedAt'', JDate 5), (''__v'', JNumber 0)]"

definition world0 :: world where
  "world0 = \<lparr>store = [], piped = [], console = []\<rparr>"

definition env1 :: env where
  "env1 = \<lparr>cwd = ''/srv/app'', save_time = 1700, object_id = 1, store_fault = None\<rparr>"

definition stream5 :: file_stream where
  "stream5 = \<lparr>content = ''hello'', bytesRead = 0, stream_error = None\<rparr>"

definition sink1 :: sink_env where
  "sink1 = \<lparr>date_now = 1700, write_fault = None\<rparr>"

definition request1 :: request where
  "request1 =
     \<lparr>parts = [FieldPart ''firstName'' (Text ''Anna''),
               FieldPart ''email'' (Text ''a@x.com''),
               FilePart ''identityDocument'' ''id.pdf'' ''application/pdf'' stream5 sink1,
               FilePart ''avatar'' ''me.png'' ''image/png'' stream5 sink1],
      parts_error = None, ip = ''10.0.0.1'', user_agent = Some ''curl''\<rparr>"

definition world1 :: world where
  "world1 =
     \<lparr>store =
         [[(''firstName'', JString ''Anna''), (''email'', JString ''a@x.com''),
           (''identityDocument'',
            JFileList
             [\<lparr>originalname = ''id.pdf'', mimetype = ''application/pdf'', size_bytes = 5,
               path = Some ''/srv/app/uploads/1700-id.pdf'', filename = Some ''1700-id.pdf''\<rparr>]),
           (''residencyProof'', JFileList []), (''qualifications'', JFileList []),
           (''businessPermit'', JFileList []), (''liabilityInsurance'', JFileList []),
           (''companyStatutes'', JFileList []), (''ipAddress'', JString ''10.0.0.1''),
           (''userAgent'', JString ''curl''), (''_id'', JObjectId 1),
           (''createdAt'', JDate 1700), (''updatedAt'', JDate 1700), (''__v'', JNumber 0)]],
       piped = [(''/srv/app/uploads/1700-id.pdf'', ''hello''),
                (''/srv/app/uploads/1700-me.png'', ''hello'')],
       console = []\<rparr>"

definition request2 :: request where
  "request2 =
     \<lparr>parts = [FieldPart ''firstName'' (Text ''Ben''), FieldPart ''email'' (Text ''b@x.com'')],
      parts_error = None, ip = ''10.0.0.2'', user_agent = None\<rparr>"

definition env2 :: env where
  "env2 = \<lparr>cwd = ''/srv/app'', save_time = 1800, object_id = 2, store_fault = None\<rparr>"

definition sink_full :: sink_env where
  "sink_full = \<lparr>date_now = 1700, write_fault = Some ''ENOSPC: no space left on device''\<rparr>"

definition request_disk_full :: request where
  "request_disk_full =
     \<lparr>parts = [FieldPart ''email'' (Text ''c@x.com''),
               FilePart ''qualifications'' ''cv.pdf'' ''application/pdf'' stream5 sink_full],
      parts_error = None, ip = ''10.0.0.3'', user_agent = None\<rparr>"

definition stream_other :: file_stream where
  "stream_other = \<lparr>content = ''other bytes'', bytesRead = 0, stream_error = None\<rparr>"

definition request_collide :: request where
  "request_collide =
     \<lparr>parts = [FilePart ''avatar'' ''a.pdf'' ''application/pdf'' stream_other sink1,
               FilePart ''identityDocument'' ''a.pdf'' ''application/pdf'' stream5 sink1],
      parts_error = None, ip = ''10.0.0.7'', user_agent = None\<rparr>"

definition request_dup :: request where
  "request_dup =
     \<lparr>parts = [FieldPart ''firstName'' (Text ''Anne''), FieldPart ''email'' (Text ''a@x.com'')],
      parts_error = None, ip = ''10.0.0.4'', user_agent = None\<rparr>"

definition request_spoof :: request where
  "request_spoof =
     \<lparr>parts = [FieldPart ''userAgent'' (Text ''first''), FieldPart ''userAgent'' (Text ''spoofed'')],
      parts_error = None, ip = ''10.0.0.5'', user_agent = Some ''curl''\<rparr>"

definition request_twice :: request where
  "request_twice =
     \<lparr>parts = [FieldPart ''city'' (Text ''Bern''), FieldPart ''city'' (Text ''Basel''),
               FieldPart ''phone'' (Text ''123'')],
      parts_error = None, ip = ''10.0.0.6'', user_agent = None\<rparr>"

section \<open>The listing query\<close>

lemma select_minus_filter: "select_minus ks d = filter (\<lambda>kv. fst kv \<notin> set ks) d"
  unfolding select_minus_def
proof (induction ks arbitrary: d)
  case Nil
  then show ?case by simp
next
  case (Cons k ks)
  have "AList.delete k d = filter (\<lambda>kv. fst kv \<noteq> k) d"
    by (induction d) (auto simp: AList.delete_eq)
  then show ?case using Cons by (simp add: conj_commute)
qed

lemma select_minus_keys: "fst ` set (select_minus ks d) = fst ` set d - set ks"
  by (auto simp: select_minus_filter)

lemma select_minus_map_of: "k \<notin> set ks \<Longrightarrow> map_of (select_minus ks d) k = map_of d k"
  unfolding select_minus_filter by (induction d) auto

lemma createdAt_of_select_minus:
  "''createdAt'' \<notin> set ks \<Longrightarrow> createdAt_of (select_minus ks d) = createdAt_of d"
  by (simp add: createdAt_of_def select_minus_map_of)

lemma listRecent_mset:
  "mset (listRecent st) = mset (map (select_minus [''__v'', ''updatedAt'', ''ipAddress'', ''userAgent'']) st)"
  by (simp add: listRecent_def)

lemma listRecent_sorted:
  "sorted_wrt (\<lambda>a b. createdAt_of b \<le> createdAt_of a) (listRecent st)"
  unfolding listRecent_def sorted_wrt_rev
  using sorted_sort_key [of createdAt_of] by (simp add: sorted_map)

lemma listRecent_set:
  "set (listRecent st) = select_minus [''__v'', ''updatedAt'', ''ipAddress'', ''userAgent''] ` set st"
  by (simp add: listRecent_def)

text \<open>
  C6: for every state of the store, the listing, when its query does not throw, returns
  with status 200 all stored submissions (each projected) and their number, ordered by
  creation time with the newest first, and no
  returned record has the properties \<^verbatim>\<open>ipAddress\<close>, \<^verbatim>\<open>userAgent\<close> or \<^verbatim>\<open>__v\<close>; the
  projection keeps the creation time; an empty store gives the empty sequence, still
  with status 200.
\<close>

theorem listRecent_all_sorted_redacted:
  "get_submissions v None w =
     (Reply 200 (Success_list (length (store w)) (listRecent (store w))), w)
   \<and> mset (listRecent (store w)) =
       mset (map (select_minus [''__v'', ''updatedAt'', ''ipAddress'', ''userAgent'']) (store w))
   \<and> sorted_wrt (\<lambda>a b. createdAt_of b \<le> createdAt_of a) (listRecent (store w))
   \<and> (\<forall>d \<in> set (listRecent (store w)).
         ''ipAddress'' \<notin> fst ` set d \<and> ''userAgent'' \<notin> fst ` set d \<and> ''__v'' \<notin> fst ` set d)
   \<and> (\<forall>d \<in> set (store w).
         createdAt_of (select_minus [''__v'', ''updatedAt'', ''ipAddress'', ''userAgent''] d)
           = createdAt_of d)
   \<and> (store w = [] \<longrightarrow> listRecent (store w) = [])"
proof -
  have "length (listRecent (store w)) = length (store w)"
    by (simp add: listRecent_def)
  then have "get_submissions v None w =
     (Reply 200 (Success_list (length (store w)) (listRecent (store w))), w)"
    by (simp add: get_submissions_def Let_def)
  moreover have "\<forall>d \<in> set (listRecent (store w)).
         ''ipAddress'' \<notin> fst ` set d \<and> ''userAgent'' \<notin> fst ` set d \<and> ''__v'' \<notin> fst ` set d"
    unfolding listRecent_set by (auto simp: select_minus_keys)
  moreover have "store w = [] \<longrightarrow> listRecent (store w) = []"
    by (simp add: listRecent_def)
  ultimately show ?thesis
    using listRecent_mset listRecent_sorted by (simp add: createdAt_of_select_minus)
qed

theorem listRecent_all_sorted_redacted_witness:
  "get_submissions Persisting None \<lparr>store = [docA, docB], piped = [], console = []\<rparr> =
     (Reply 200 (Success_list 2
        [[(''email'', JString ''b@x.com''), (''_id'', JObjectId 2), (''createdAt'', JDate 5)],
         [(''email'', JString ''a@x.com''), (''_id'', JObjectId 1), (''createdAt'', JDate 3)]]),
      \<lparr>store = [docA, docB], piped = [], console = []\<rparr>)
   \<and> sorted_wrt (\<lambda>a b. createdAt_of b \<le> createdAt_of a) (listRecent [docA, docB])
   \<and> ''ipAddress'' \<notin> fst ` set (hd (listRecent [docA, docB]))
   \<and> ''userAgent'' \<notin> fst ` set (hd (listRecent [docA, docB]))
   \<and> ''__v'' \<notin> fst ` set (hd (listRecent [docA, docB]))"
proof -
  have ev: "listRecent [docA, docB]
   = [[(''email'', JString ''b@x.com''), (''_id'', JObjectId 2), (''createdAt'', JDate 5)],
      [(''email'', JString ''a@x.com''), (''_id'', JObjectId 1), (''createdAt'', JDate 3)]]"
    by (simp add: listRecent_def select_minus_def AList.delete_eq createdAt_of_def docA_def docB_def)
  have "get_submissions Persisting None \<lparr>store = [docA, docB], piped = [], console = []\<rparr> =
     (Reply 200 (Success_list 2 (listRecent [docA, docB])),
      \<lparr>store = [docA, docB], piped = [], console = []\<rparr>)
   \<and> sorted_wrt (\<lambda>a b. createdAt_of b \<le> createdAt_of a) (listRecent [docA, docB])
   \<and> (\<forall>d \<in> set (listRecent [docA, docB]).
         ''ipAddress'' \<notin> fst ` set d \<and> ''userAgent'' \<notin> fst ` set d \<and> ''__v'' \<notin> fst ` set d)"
    using listRecent_all_sorted_redacted
      [of Persisting "\<lparr>store = [docA, docB], piped = [], console = []\<rparr>"]
    by simp
  moreover have "hd (listRecent [docA, docB]) \<in> set (listRecent [docA, docB])"
    by (simp add: ev)
  ultimately show ?thesis unfolding ev by simp
qed

section \<open>Properties of the loop\<close>

subsection \<open>Objects\<close>

lemma map_of_spread:
  "map_of (spread t s) k = (case map_of (rev s) k of Some v \<Rightarrow> Some v | None \<Rightarrow> map_of t k)"
  unfolding spread_def
proof (induction s arbitrary: t)
  case Nil
  then show ?case by simp
next
  case (Cons kv s)
  show ?case
    by (cases kv) (auto simp: Cons update_conv' map_add_def split: option.splits)
qed

lemma map_of_rev_distinct: "distinct (map fst s) \<Longrightarrow> map_of (rev s) k = map_of s k"
proof -
  assume d: "distinct (map fst s)"
  then have "distinct (map fst (rev s))" by (simp add: rev_map [symmetric])
  then have "map_of (rev s) = map_of s"
    using d by (simp add: map_of_inject_set)
  then show ?thesis by simp
qed

lemma keys_spread: "fst ` set (spread t s) = fst ` set t \<union> fst ` set s"
  unfolding spread_def
  by (induction s arbitrary: t) (auto simp: dom_update)

lemma js_push_Inr:
  "js_push ob k x = Inr ob' \<longleftrightarrow>
     (\<exists>xs. map_of ob k = Some (JFileList xs) \<and> ob' = AList.update k (JFileList (xs @ [x])) ob)"
  by (auto simp: js_push_def js_get_def split: option.splits jsval.splits lookup.splits)

lemma map_of_js_set:
  "k \<noteq> ''__proto__'' \<Longrightarrow> map_of (js_set ob k v) k' = (if k' = k then Some v else map_of ob k')"
  by (simp add: js_set_def update_conv')

lemma map_of_js_set_other: "k' \<noteq> k \<Longrightarrow> map_of (js_set ob k v) k' = map_of ob k'"
  by (simp add: js_set_def update_conv')

lemma distinct_js_set: "distinct (map fst ob) \<Longrightarrow> distinct (map fst (js_set ob k v))"
  by (simp add: js_set_def distinct_update)

lemma not_list_to_js: "\<not> is_list (to_js x)"
  by (cases x) (simp_all add: is_list_def)

lemma values_js_set:
  "snd ` set (js_set ob k v) \<subseteq> insert v (snd ` set ob)"
proof -
  have "set (AList.update k v ob) \<subseteq> insert (k, v) (set ob)"
    by (induction ob) auto
  then show ?thesis by (auto simp: js_set_def)
qed

subsection \<open>One part\<close>

lemma pipe_and_wait_Returned:
  "pipe_and_wait target f se w = (Returned f', w') \<longleftrightarrow>
     write_fault se = None \<and> stream_error f = None
     \<and> f' = f\<lparr>bytesRead := length (content f)\<rparr>
     \<and> w' = w\<lparr>piped := piped w @ [(target, content f)]\<rparr>"
  by (auto simp: pipe_and_wait_def Let_def split: option.splits)

lemma persisting_sink_Returned:
  "persisting_sink dir fname mime f se w = (Returned (fd, f'), w') \<longleftrightarrow>
     write_fault se = None \<and> stream_error f = None
     \<and> fd = \<lparr>originalname = fname, mimetype = mime, size_bytes = length (content f),
              path = Some (savePath dir (date_now se) fname),
              filename = Some (path_basename (savePath dir (date_now se) fname))\<rparr>
     \<and> f' = f\<lparr>bytesRead := length (content f)\<rparr>
     \<and> w' = w\<lparr>piped := piped w @ [(savePath dir (date_now se) fname, content f)]\<rparr>"
proof -
  obtain r w1 where pw: "pipe_and_wait (savePath dir (date_now se) fname) f se w = (r, w1)"
    by (cases "pipe_and_wait (savePath dir (date_now se) fname) f se w")
  show ?thesis
  proof (cases r)
    case (Returned f1)
    then show ?thesis
      using pw pipe_and_wait_Returned [of "savePath dir (date_now se) fname" f se w f1 w1]
      by (auto simp: persisting_sink_def Let_def or_zero_def)
  next
    case (Thrown err)
    then show ?thesis
      using pw pipe_and_wait_Returned [of "savePath dir (date_now se) fname" f se w]
      by (auto simp: persisting_sink_def Let_def)
  next
    case (Uncaught err)
    then show ?thesis
      using pw pipe_and_wait_Returned [of "savePath dir (date_now se) fname" f se w]
      by (auto simp: persisting_sink_def Let_def)
  qed
qed


lemma files_under_single:
  "files_under c [p] = (if is_file p \<and> fieldname p = c then [p] else [])"
  by (simp add: files_under_def)

lemma files_under_Cons:
  "files_under c (p # ps) = files_under c [p] @ files_under c ps"
  by (simp add: files_under_def)

lemma update_keys_same:
  "map_of ob k = Some x \<Longrightarrow> map fst (AList.update k v ob) = map fst ob"
proof -
  assume "map_of ob k = Some x"
  then have "(k, x) \<in> set ob" by (rule map_of_SomeD)
  then have "k \<in> fst ` set ob" by force
  then show ?thesis by (simp add: update_keys)
qed

lemma files_ok_init: "files_ok files_init"
  by (simp add: files_ok_def files_init_def categories_def is_list_def)

lemma files_ok_lookup:
  assumes "files_ok files" and "map_of files k = Some a"
  shows "is_list a" and "k \<in> set categories"
proof -
  have m: "(k, a) \<in> set files" using assms(2) by (rule map_of_SomeD)
  then show "is_list a" using assms(1) by (auto simp: files_ok_def list_all_iff)
  have "k \<in> set (map fst files)" using m by force
  moreover have "map fst files = categories" using assms(1) by (simp add: files_ok_def)
  ultimately show "k \<in> set categories" by metis
qed

lemma list_all_update:
  "list_all P al \<Longrightarrow> P (k, v) \<Longrightarrow> list_all P (AList.update k v al)"
  by (induction al) auto

lemma files_ok_update:
  assumes "files_ok files" and "map_of files k = Some a"
  shows "files_ok (AList.update k (JFileList ys) files)"
  using assms by (simp add: files_ok_def update_keys_same list_all_update is_list_def)

lemma empty_not_category: "[] \<notin> set categories"
  by (simp add: categories_def)

lemma handle_part_persisting_file_Returned:
  assumes "handle_part_persisting dir (FilePart name fname mime f se) (body, files) w
             = (Returned (body1, files1), w1)"
  shows "body1 = body"
    and "w1 = w\<lparr>piped := piped w @ [(savePath dir (date_now se) fname, content f)]\<rparr>"
    and "write_fault se = None" and "stream_error f = None"
    and "(\<exists>xs. map_of files name = Some (JFileList xs)
            \<and> files1 = AList.update name
                 (JFileList (xs @ [expected_record Persisting dir (FilePart name fname mime f se)]))
                 files)
         \<or> (\<not> truthy (js_get files name) \<and> files1 = files)"
proof -
  obtain r w2 where ps: "persisting_sink dir fname mime f se w = (r, w2)"
    by (cases "persisting_sink dir fname mime f se w")
  from assms ps obtain fd f' where r: "r = Returned (fd, f')"
    by (cases r) (auto split: if_splits sum.splits)
  note facts = ps [unfolded r persisting_sink_Returned]
  from assms ps r have w: "w1 = w2"
    by (auto split: if_splits sum.splits)
  show "w1 = w\<lparr>piped := piped w @ [(savePath dir (date_now se) fname, content f)]\<rparr>"
    using facts w by simp
  show "write_fault se = None" "stream_error f = None" using facts by simp_all
  show "body1 = body" using assms ps r by (auto split: if_splits sum.splits)
  have fd: "fd = expected_record Persisting dir (FilePart name fname mime f se)"
    using facts by simp
  show "(\<exists>xs. map_of files name = Some (JFileList xs)
            \<and> files1 = AList.update name
                 (JFileList (xs @ [expected_record Persisting dir (FilePart name fname mime f se)]))
                 files)
         \<or> (\<not> truthy (js_get files name) \<and> files1 = files)"
  proof (cases "truthy (js_get files name)")
    case True
    then have "js_push files name fd = Inr files1"
      using assms ps r by (auto split: sum.splits)
    then show ?thesis unfolding js_push_Inr fd by blast
  next
    case False
    then have "files1 = files" using assms ps r by auto
    then show ?thesis using False by simp
  qed
qed

lemma handle_part_metadata_file_Returned:
  assumes "handle_part_metadata (FilePart name fname mime f se) (body, files)
             = Returned (body1, files1)"
  shows "body1 = body"
    and "(\<exists>xs. map_of files name = Some (JFileList xs)
            \<and> files1 = AList.update name
                 (JFileList (xs @ [expected_record MetadataOnly dir (FilePart name fname mime f se)]))
                 files)
         \<or> (name = [] \<and> files1 = files)"
proof -
  show "body1 = body" using assms by (auto split: if_splits sum.splits)
  show "(\<exists>xs. map_of files name = Some (JFileList xs)
            \<and> files1 = AList.update name
                 (JFileList (xs @ [expected_record MetadataOnly dir (FilePart name fname mime f se)]))
                 files)
         \<or> (name = [] \<and> files1 = files)"
  proof (cases "name = []")
    case True
    then show ?thesis using assms by simp
  next
    case False
    then have "js_push files name (fst (metadata_sink fname mime f)) = Inr files1"
      using assms by (auto split: sum.splits)
    then show ?thesis unfolding js_push_Inr by (auto simp: metadata_sink_def)
  qed
qed

lemma not_truthy_None:
  assumes "files_ok files" and "\<not> truthy (js_get files name)"
  shows "map_of files name = None"
proof (cases "map_of files name")
  case None
  then show ?thesis .
next
  case (Some a)
  then have "is_list a" using assms(1) by (rule files_ok_lookup(1) [rotated])
  then show ?thesis using assms(2) Some
    by (cases a) (simp_all add: js_get_def is_list_def)
qed

lemma handle_part_files:
  assumes "handle_part v dir p (body, files) w = (Returned (body1, files1), w1)"
    and "files_ok files"
  shows "files_ok files1"
    and "map_of files c = Some (JFileList xs) \<Longrightarrow>
         map_of files1 c = Some (JFileList (xs @ map (expected_record v dir) (files_under c [p])))"
proof -
  have both: "files_ok files1 \<and>
         (map_of files c = Some (JFileList xs) \<longrightarrow>
          map_of files1 c = Some (JFileList (xs @ map (expected_record v dir) (files_under c [p]))))"
  proof (cases p)
    case (FieldPart name x)
    then have "files1 = files" using assms(1) by (cases v) (auto split: if_splits)
    then show ?thesis using assms(2) FieldPart by (simp add: files_under_single)
  next
    case (FilePart name fname mime f se)
    have alt: "(\<exists>ys. map_of files name = Some (JFileList ys)
            \<and> files1 = AList.update name (JFileList (ys @ [expected_record v dir p])) files)
         \<or> ((\<not> truthy (js_get files name) \<or> name = []) \<and> files1 = files)"
    proof (cases v)
      case Persisting
      then show ?thesis
        using handle_part_persisting_file_Returned(5) [of dir name fname mime f se body files w body1 files1 w1]
          assms(1) FilePart by auto
    next
      case MetadataOnly
      then show ?thesis
        using handle_part_metadata_file_Returned(2) [of name fname mime f se body files body1 files1 dir]
          assms(1) FilePart by auto
    qed
    then show ?thesis
    proof
      assume "\<exists>ys. map_of files name = Some (JFileList ys)
            \<and> files1 = AList.update name (JFileList (ys @ [expected_record v dir p])) files"
      then obtain ys where ys: "map_of files name = Some (JFileList ys)"
        and f1: "files1 = AList.update name (JFileList (ys @ [expected_record v dir p])) files"
        by blast
      have "files_ok files1" unfolding f1 using assms(2) ys by (rule files_ok_update)
      then show ?thesis
        using ys f1 FilePart
        by (auto simp: update_conv' files_under_single)
    next
      assume a: "(\<not> truthy (js_get files name) \<or> name = []) \<and> files1 = files"
      have "map_of files name = None"
      proof (cases "name = []")
        case True
        show ?thesis
        proof (cases "map_of files name")
          case None then show ?thesis .
        next
          case (Some b)
          then have "name \<in> set categories" using assms(2) by (rule files_ok_lookup(2) [rotated])
          then show ?thesis using True empty_not_category by simp
        qed
      next
        case False
        then show ?thesis using a not_truthy_None [OF assms(2)] by blast
      qed
      then show ?thesis
        using a assms(2) FilePart by (auto simp: files_under_single)
    qed
  qed
  show "files_ok files1" using both by simp
  show "map_of files c = Some (JFileList xs) \<Longrightarrow>
         map_of files1 c = Some (JFileList (xs @ map (expected_record v dir) (files_under c [p])))"
    using both by simp
qed


lemma handle_part_body:
  assumes "handle_part v dir p (body, files) w = (Returned (body1, files1), w1)"
  shows "body1 = (if stores_field v p then js_set body (fieldname p) (to_js (part_value p)) else body)"
proof (cases p)
  case (FieldPart name x)
  then show ?thesis using assms by (cases v) (auto split: if_splits)
next
  case (FilePart name fname mime f se)
  show ?thesis
  proof (cases v)
    case Persisting
    then show ?thesis
      using handle_part_persisting_file_Returned(1) [of dir name fname mime f se body files w body1 files1 w1]
        assms FilePart by simp
  next
    case MetadataOnly
    then show ?thesis
      using handle_part_metadata_file_Returned(1) [of name fname mime f se body files body1 files1]
        assms FilePart by simp
  qed
qed

lemma pipe_and_wait_world:
  "store (snd (pipe_and_wait target f se w)) = store w
   \<and> console (snd (pipe_and_wait target f se w)) = console w"
  by (simp add: pipe_and_wait_def Let_def split: option.splits)

lemma persisting_sink_world:
  "store (snd (persisting_sink dir fname mime f se w)) = store w
   \<and> console (snd (persisting_sink dir fname mime f se w)) = console w"
proof -
  obtain r w1 where pw: "pipe_and_wait (savePath dir (date_now se) fname) f se w = (r, w1)"
    by (cases "pipe_and_wait (savePath dir (date_now se) fname) f se w")
  then have "store w1 = store w \<and> console w1 = console w"
    using pipe_and_wait_world [of "savePath dir (date_now se) fname" f se w] by simp
  then show ?thesis
    using pw by (cases r) (simp_all add: persisting_sink_def Let_def)
qed

lemma handle_part_world:
  "store (snd (handle_part v dir p st w)) = store w
   \<and> console (snd (handle_part v dir p st w)) = console w"
proof (cases v)
  case MetadataOnly
  then show ?thesis by simp
next
  case Persisting
  obtain body files where st: "st = (body, files)" by (cases st)
  show ?thesis
  proof (cases p)
    case (FieldPart name x)
    then show ?thesis using Persisting st by simp
  next
    case (FilePart name fname mime f se)
    obtain r w1 where ps: "persisting_sink dir fname mime f se w = (r, w1)"
      by (cases "persisting_sink dir fname mime f se w")
    then have "store w1 = store w \<and> console w1 = console w"
      using persisting_sink_world [of dir fname mime f se w] by simp
    then show ?thesis
      using Persisting st FilePart ps
      by (cases r) (auto split: sum.splits)
  qed
qed

lemma run_parts_world:
  "store (snd (run_parts v dir ps st w)) = store w
   \<and> console (snd (run_parts v dir ps st w)) = console w"
proof (induction ps arbitrary: st w)
  case Nil
  then show ?case by simp
next
  case (Cons p ps)
  obtain r w1 where h: "handle_part v dir p st w = (r, w1)"
    by (cases "handle_part v dir p st w")
  then have w1: "store w1 = store w \<and> console w1 = console w"
    using handle_part_world [of v dir p st w] by simp
  show ?case
  proof (cases r)
    case (Returned st1)
    then show ?thesis using h w1 Cons.IH [of st1 w1] by simp
  next
    case (Thrown err)
    then show ?thesis using h w1 by simp
  next
    case (Uncaught err)
    then show ?thesis using h w1 by simp
  qed
qed

lemma run_parts_Cons_Returned:
  assumes "run_parts v dir (p # ps) st w = (Returned st', w')"
  obtains st1 w1 where "handle_part v dir p st w = (Returned st1, w1)"
    and "run_parts v dir ps st1 w1 = (Returned st', w')"
proof -
  obtain r w1 where h: "handle_part v dir p st w = (r, w1)"
    by (cases "handle_part v dir p st w")
  then obtain st1 where "r = Returned st1"
    using assms by (cases r) auto
  then show ?thesis using that h assms by simp
qed

lemma run_parts_files:
  assumes "run_parts v dir ps (body, files) w = (Returned (body', files'), w')"
    and "files_ok files"
  shows "files_ok files'"
    and "map_of files c = Some (JFileList xs) \<Longrightarrow>
         map_of files' c = Some (JFileList (xs @ map (expected_record v dir) (files_under c ps)))"
proof -
  have "files_ok files' \<and>
        (\<forall>xs. map_of files c = Some (JFileList xs) \<longrightarrow>
           map_of files' c = Some (JFileList (xs @ map (expected_record v dir) (files_under c ps))))"
    using assms
  proof (induction ps arbitrary: body files w)
    case Nil
    then show ?case by (simp add: files_under_def)
  next
    case (Cons p ps)
    from Cons.prems(1) obtain st1 w1
      where h: "handle_part v dir p (body, files) w = (Returned st1, w1)"
        and r: "run_parts v dir ps st1 w1 = (Returned (body', files'), w')"
      by (rule run_parts_Cons_Returned)
    obtain body1 files1 where st1: "st1 = (body1, files1)" by (cases st1)
    have ok1: "files_ok files1"
      using handle_part_files(1) [OF h [unfolded st1] Cons.prems(2)] .
    have step: "\<And>xs. map_of files c = Some (JFileList xs) \<Longrightarrow>
         map_of files1 c = Some (JFileList (xs @ map (expected_record v dir) (files_under c [p])))"
      using handle_part_files(2) [OF h [unfolded st1] Cons.prems(2)] .
    have ih: "files_ok files' \<and>
        (\<forall>xs. map_of files1 c = Some (JFileList xs) \<longrightarrow>
           map_of files' c = Some (JFileList (xs @ map (expected_record v dir) (files_under c ps))))"
      using Cons.IH [OF r [unfolded st1] ok1] .
    show ?case
    proof (intro conjI allI impI)
      show "files_ok files'" using ih by simp
    next
      fix xs assume "map_of files c = Some (JFileList xs)"
      then have "map_of files1 c
          = Some (JFileList (xs @ map (expected_record v dir) (files_under c [p])))"
        by (rule step)
      then have "map_of files' c
          = Some (JFileList ((xs @ map (expected_record v dir) (files_under c [p]))
                     @ map (expected_record v dir) (files_under c ps)))"
        using ih by blast
      then show "map_of files' c
          = Some (JFileList (xs @ map (expected_record v dir) (files_under c (p # ps))))"
        by (simp add: files_under_Cons [of c p ps])
    qed
  qed
  then show "files_ok files'"
    and "map_of files c = Some (JFileList xs) \<Longrightarrow>
         map_of files' c = Some (JFileList (xs @ map (expected_record v dir) (files_under c ps)))"
    by simp_all
qed

lemma run_parts_body:
  assumes "run_parts v dir ps (body, files) w = (Returned (body', files'), w')"
  shows "k \<noteq> ''__proto__'' \<Longrightarrow>
         map_of body' k =
           (case last_field v k ps of Some x \<Rightarrow> Some (to_js x) | None \<Rightarrow> map_of body k)"
    and "distinct (map fst body) \<Longrightarrow> distinct (map fst body')"
    and "list_all (\<lambda>kv. \<not> is_list (snd kv)) body \<Longrightarrow> list_all (\<lambda>kv. \<not> is_list (snd kv)) body'"
proof -
  have "(k \<noteq> ''__proto__'' \<longrightarrow>
         map_of body' k =
           (case last_field v k ps of Some x \<Rightarrow> Some (to_js x) | None \<Rightarrow> map_of body k))
        \<and> (distinct (map fst body) \<longrightarrow> distinct (map fst body'))
        \<and> (list_all (\<lambda>kv. \<not> is_list (snd kv)) body
             \<longrightarrow> list_all (\<lambda>kv. \<not> is_list (snd kv)) body')"
    using assms
  proof (induction ps arbitrary: body files w)
    case Nil
    then show ?case by simp
  next
    case (Cons p ps)
    from Cons.prems obtain st1 w1
      where h: "handle_part v dir p (body, files) w = (Returned st1, w1)"
        and r: "run_parts v dir ps st1 w1 = (Returned (body', files'), w')"
      by (rule run_parts_Cons_Returned)
    obtain body1 files1 where st1: "st1 = (body1, files1)" by (cases st1)
    have b1: "body1 = (if stores_field v p
                        then js_set body (fieldname p) (to_js (part_value p)) else body)"
      using handle_part_body [OF h [unfolded st1]] .
    note ih = Cons.IH [OF r [unfolded st1]]
    have d: "distinct (map fst body) \<Longrightarrow> distinct (map fst body1)"
      unfolding b1 by (simp add: distinct_js_set)
    have l: "list_all (\<lambda>kv. \<not> is_list (snd kv)) body
               \<Longrightarrow> list_all (\<lambda>kv. \<not> is_list (snd kv)) body1"
      unfolding b1 by (simp add: js_set_def list_all_update not_list_to_js)
    have m: "k \<noteq> ''__proto__'' \<Longrightarrow>
      (case last_field v k ps of Some x \<Rightarrow> Some (to_js x) | None \<Rightarrow> map_of body1 k)
      = (case last_field v k (p # ps) of Some x \<Rightarrow> Some (to_js x) | None \<Rightarrow> map_of body k)"
      unfolding b1
      by (cases "fieldname p = ''__proto__''")
         (auto simp: js_set_def update_conv' split: option.splits)
    show ?case using ih d l m by auto
  qed
  then show "k \<noteq> ''__proto__'' \<Longrightarrow>
         map_of body' k =
           (case last_field v k ps of Some x \<Rightarrow> Some (to_js x) | None \<Rightarrow> map_of body k)"
    and "distinct (map fst body) \<Longrightarrow> distinct (map fst body')"
    and "list_all (\<lambda>kv. \<not> is_list (snd kv)) body \<Longrightarrow> list_all (\<lambda>kv. \<not> is_list (snd kv)) body'"
    by simp_all
qed

subsection \<open>The whole request\<close>

lemma receive_Returned:
  "receive v dir req w = (Returned st, w') \<longleftrightarrow>
     run_parts v dir (parts req) ([], files_init) w = (Returned st, w') \<and> parts_error req = None"
proof -
  obtain r w1 where rp: "run_parts v dir (parts req) ([], files_init) w = (r, w1)"
    by (cases "run_parts v dir (parts req) ([], files_init) w")
  show ?thesis
    using rp by (cases r) (auto simp: receive_def split: option.splits)
qed

lemma receive_world:
  "store (snd (receive v dir req w)) = store w \<and> console (snd (receive v dir req w)) = console w"
proof -
  obtain r w1 where rp: "run_parts v dir (parts req) ([], files_init) w = (r, w1)"
    by (cases "run_parts v dir (parts req) ([], files_init) w")
  then have "store w1 = store w \<and> console w1 = console w"
    using run_parts_world [of v dir "parts req" "([], files_init)" w] by simp
  then show ?thesis
    using rp by (cases r) (auto simp: receive_def split: option.splits)
qed

lemma distinct_categories: "distinct categories"
  by (simp add: categories_def)

lemma files_ok_distinct: "files_ok files \<Longrightarrow> distinct (map fst files)"
  by (simp add: files_ok_def distinct_categories)

lemma files_ok_present:
  assumes "files_ok files" and "c \<in> set categories"
  shows "\<exists>xs. map_of files c = Some (JFileList xs)"
proof -
  have "c \<in> fst ` set files" using assms by (simp add: files_ok_def flip: set_map)
  then obtain a where a: "map_of files c = Some a"
    by (cases "map_of files c") (auto simp: map_of_eq_None_iff)
  then have "is_list a" using assms(1) by (rule files_ok_lookup(1) [rotated])
  then show ?thesis using a by (cases a) (simp_all add: is_list_def)
qed

lemma assemble_lookup:
  assumes "distinct (map fst body)" and "files_ok files"
  shows "map_of (assemble v req body files) k =
     (if k = ''userAgent'' then Some (JString (header_or (user_agent req) (fallback_user_agent v)))
      else if k = ''ipAddress'' then Some (JString (ip req))
      else case map_of files k of Some x \<Rightarrow> Some x | None \<Rightarrow> map_of body k)"
  using assms
  by (simp add: assemble_def map_of_spread map_of_rev_distinct files_ok_distinct
           split: option.splits)

lemma system_fields_lookup:
  "map_of (spread sub (system_fields e)) k =
     (if k = ''__v'' then Some (JNumber 0)
      else if k = ''updatedAt'' then Some (JDate (save_time e))
      else if k = ''createdAt'' then Some (JDate (save_time e))
      else if k = ''_id'' then Some (JObjectId (object_id e))
      else map_of sub k)"
  by (simp add: map_of_spread system_fields_def)

lemma store_save_Inr:
  "store_save u e sub st = Inr (ident, st') \<longleftrightarrow>
     store_fault e = None
     \<and> \<not> (u \<and> map_of sub ''email'' \<in> set (map (\<lambda>d. map_of d ''email'') st))
     \<and> ident = JObjectId (object_id e) \<and> st' = st @ [spread sub (system_fields e)]"
  by (auto simp: store_save_def split: option.splits)

lemma submit_form_accepted:
  assumes "submit_form v e req w = (Some (Reply 200 js), w')"
  obtains body files w1 where
    "run_parts v (cwd e) (parts req) ([], files_init) w = (Returned (body, files), w1)"
    and "parts_error req = None"
    and "store_save (email_unique v) e (assemble v req body files) (store w)
           = Inr (JObjectId (object_id e),
                  store w @ [spread (assemble v req body files) (system_fields e)])"
    and "w' = w1\<lparr>store := store w @ [spread (assemble v req body files) (system_fields e)]\<rparr>"
    and "js = Success_id (success_message v) (JObjectId (object_id e))"
proof -
  obtain r w1 where rc: "receive v (cwd e) req w = (r, w1)"
    by (cases "receive v (cwd e) req w")
  have w1: "store w1 = store w" using receive_world [of v "cwd e" req w] rc by simp
  from assms rc obtain body files where r: "r = Returned (body, files)"
    by (cases r) (auto simp: submit_form_def on_error_def)
  from assms rc r obtain ident st' where
    sv: "store_save (email_unique v) e (assemble v req body files) (store w1) = Inr (ident, st')"
    and res: "js = Success_id (success_message v) ident" "w' = w1\<lparr>store := st'\<rparr>"
    by (cases "store_save (email_unique v) e (assemble v req body files) (store w1)")
       (auto simp: submit_form_def on_error_def)
  note sv' = sv [unfolded store_save_Inr w1]
  from rc r have "run_parts v (cwd e) (parts req) ([], files_init) w = (Returned (body, files), w1)"
    and "parts_error req = None"
    by (simp_all add: receive_Returned)
  then show ?thesis
    using that [of body files w1] sv sv' res w1 by simp
qed

lemma stored_lists:
  assumes "run_parts v dir (parts req) ([], files_init) w = (Returned (body, files), w1)"
  shows "c \<in> set categories \<Longrightarrow>
           map_of (spread (assemble v req body files) (system_fields e)) c
             = Some (JFileList (map (expected_record v dir) (files_under c (parts req))))"
    and "map_of (spread (assemble v req body files) (system_fields e)) k = Some (JFileList ys)
           \<Longrightarrow> k \<in> set categories"
proof -
  have ok: "files_ok files"
    using run_parts_files(1) [OF assms files_ok_init] .
  have d: "distinct (map fst body)"
    using run_parts_body(2) [OF assms] by simp
  have nl: "list_all (\<lambda>kv. \<not> is_list (snd kv)) body"
    using run_parts_body(3) [OF assms] by simp
  note look = assemble_lookup [OF d ok, of v req]
  {
    assume c: "c \<in> set categories"
    then have "map_of files_init c = Some (JFileList [])"
      by (auto simp: categories_def files_init_def)
    then have "map_of files c
                 = Some (JFileList ([] @ map (expected_record v dir) (files_under c (parts req))))"
      by (rule run_parts_files(2) [OF assms files_ok_init])
    moreover have "c \<notin> {''__v'', ''updatedAt'', ''createdAt'', ''_id'', ''userAgent'', ''ipAddress''}"
      using c by (auto simp: categories_def)
    ultimately show "map_of (spread (assemble v req body files) (system_fields e)) c
             = Some (JFileList (map (expected_record v dir) (files_under c (parts req))))"
      by (simp add: system_fields_lookup look)
  }
  {
    assume k: "map_of (spread (assemble v req body files) (system_fields e)) k = Some (JFileList ys)"
    show "k \<in> set categories"
    proof (cases "map_of files k")
      case (Some a)
      then show ?thesis using ok by (rule files_ok_lookup(2) [rotated])
    next
      case None
      then have "map_of body k = Some (JFileList ys)"
        using k by (simp add: system_fields_lookup look split: if_splits)
      then have "(k, JFileList ys) \<in> set body" by (rule map_of_SomeD)
      then have False using nl by (auto simp: list_all_iff is_list_def)
      then show ?thesis ..
    qed
  }
qed

text \<open>
  C4: whenever a request is accepted (status 200), in either variant, exactly one document
  is added to the store, and for each of the six categories its list has as many records
  as the request has file parts under that field name, in arrival order (the records
  carry the original names and MIME types of those parts, one after the other); no other
  property of the document holds a list of file records, so file parts under any other
  field name contribute none.
\<close>

theorem accepted_file_counts:
  assumes "submit_form v e req w = (Some (Reply 200 js), w')"
    and "c \<in> set categories"
  shows "\<exists>doc xs. store w' = store w @ [doc]
           \<and> map_of doc c = Some (JFileList xs)
           \<and> length xs = length (files_under c (parts req))
           \<and> map originalname xs = map part_filename (files_under c (parts req))
           \<and> map mimetype xs = map part_mimetype (files_under c (parts req))
           \<and> (\<forall>k ys. map_of doc k = Some (JFileList ys) \<longrightarrow> k \<in> set categories)"
proof -
  from assms(1) obtain body files w1 where
    run: "run_parts v (cwd e) (parts req) ([], files_init) w = (Returned (body, files), w1)"
    and w': "w' = w1\<lparr>store := store w @ [spread (assemble v req body files) (system_fields e)]\<rparr>"
    by (rule submit_form_accepted)
  let ?doc = "spread (assemble v req body files) (system_fields e)"
  let ?xs = "map (expected_record v (cwd e)) (files_under c (parts req))"
  have "store w' = store w @ [?doc]" using w' by simp
  moreover have "map_of ?doc c = Some (JFileList ?xs)"
    using stored_lists(1) [OF run assms(2)] .
  moreover have "map originalname ?xs = map part_filename (files_under c (parts req))"
    by (cases v) simp_all
  moreover have "map mimetype ?xs = map part_mimetype (files_under c (parts req))"
    by (cases v) simp_all
  moreover have "\<forall>k ys. map_of ?doc k = Some (JFileList ys) \<longrightarrow> k \<in> set categories"
    using stored_lists(2) [OF run] by blast
  ultimately show ?thesis by (intro exI [of _ ?doc] exI [of _ ?xs]) simp
qed

lemma request1_world1:
  "submit_form Persisting env1 request1 world0 =
     (Some (Reply 200 (Success_id ''Form submitted successfully!'' (JObjectId 1))), world1)"
  by code_simp

theorem accepted_file_counts_witness:
  "submit_form Persisting env1 request1 world0 =
     (Some (Reply 200 (Success_id ''Form submitted successfully!'' (JObjectId 1))), world1)
   \<and> ''identityDocument'' \<in> set categories
   \<and> length (files_under ''identityDocument'' (parts request1)) = 1
   \<and> (\<exists>doc xs. store world1 = store world0 @ [doc]
         \<and> map_of doc ''identityDocument'' = Some (JFileList xs) \<and> length xs = 1)"
proof -
  have c: "''identityDocument'' \<in> set categories" by (simp add: categories_def)
  have n: "length (files_under ''identityDocument'' (parts request1)) = 1"
    by (simp add: files_under_def request1_def)
  show ?thesis
    using accepted_file_counts [OF request1_world1 c] request1_world1 c n by auto
qed

lemma run_parts_no_files:
  "list_all (\<lambda>p. \<not> is_file p) ps \<Longrightarrow>
     \<exists>body'. run_parts v dir ps (body, files) w = (Returned (body', files), w)"
proof (induction ps arbitrary: body)
  case Nil
  then show ?case by simp
next
  case (Cons p ps)
  then obtain name x where p: "p = FieldPart name x" by (cases p) auto
  have "\<exists>body1. handle_part v dir p (body, files) w = (Returned (body1, files), w)"
    using p by (cases v) auto
  then obtain body1 where "handle_part v dir p (body, files) w = (Returned (body1, files), w)" ..
  then show ?case using Cons.IH [of body1] Cons.prems by auto
qed

text \<open>
  C5: the object built for \<^verbatim>\<open>new FormSubmission\<close> after the loop has each of the six
  category properties, holding a list; and a request without any file part, whose part
  stream does not fail and which the store takes (no fault, no stored document with the
  same email where the email is unique), is answered with status 200 and stores a
  document whose six lists are all present and empty.
\<close>

theorem six_lists_always_present:
  "(receive v dir req w = (Returned (body, files), w1) \<longrightarrow> c \<in> set categories \<longrightarrow>
      (\<exists>xs. map_of (assemble v req body files) c = Some (JFileList xs)))
   \<and> (list_all (\<lambda>p. \<not> is_file p) (parts req) \<longrightarrow> parts_error req = None \<longrightarrow>
       store_fault e = None \<longrightarrow>
       (email_unique v \<longrightarrow>
          map_option to_js (last_field v ''email'' (parts req))
            \<notin> set (map (\<lambda>d. map_of d ''email'') (store w))) \<longrightarrow>
       (\<exists>doc. submit_form v e req w =
                 (Some (Reply 200 (Success_id (success_message v) (JObjectId (object_id e)))),
                  w\<lparr>store := store w @ [doc]\<rparr>)
              \<and> list_all (\<lambda>c. map_of doc c = Some (JFileList [])) categories))"
proof (intro conjI impI)
  assume r: "receive v dir req w = (Returned (body, files), w1)" and c: "c \<in> set categories"
  then have run: "run_parts v dir (parts req) ([], files_init) w = (Returned (body, files), w1)"
    by (simp add: receive_Returned)
  have ok: "files_ok files" using run_parts_files(1) [OF run files_ok_init] .
  have d: "distinct (map fst body)" using run_parts_body(2) [OF run] by simp
  obtain xs where xs: "map_of files c = Some (JFileList xs)"
    using files_ok_present [OF ok c] by blast
  have "c \<noteq> ''userAgent''" "c \<noteq> ''ipAddress''" using c by (auto simp: categories_def)
  then have "map_of (assemble v req body files) c = Some (JFileList xs)"
    using xs by (simp add: assemble_lookup [OF d ok])
  then show "\<exists>xs. map_of (assemble v req body files) c = Some (JFileList xs)" ..
next
  assume nf: "list_all (\<lambda>p. \<not> is_file p) (parts req)" and pe: "parts_error req = None"
    and sf: "store_fault e = None"
    and nd: "email_unique v \<longrightarrow>
          map_option to_js (last_field v ''email'' (parts req))
            \<notin> set (map (\<lambda>d. map_of d ''email'') (store w))"
  obtain body where
    run: "run_parts v (cwd e) (parts req) ([], files_init) w = (Returned (body, files_init), w)"
    using run_parts_no_files [OF nf] by blast
  have rc: "receive v (cwd e) req w = (Returned (body, files_init), w)"
    using run pe by (simp add: receive_Returned)
  have d: "distinct (map fst body)" using run_parts_body(2) [OF run] by simp
  let ?sub = "assemble v req body files_init"
  have "map_of body ''email'' = map_option to_js (last_field v ''email'' (parts req))"
    using run_parts_body(1) [OF run, of "''email''"] by (simp split: option.splits)
  moreover have "map_of files_init ''email'' = None" by (simp add: files_init_def)
  ultimately have em: "map_of ?sub ''email''
      = map_option to_js (last_field v ''email'' (parts req))"
    by (simp add: assemble_lookup [OF d files_ok_init])
  have sv: "store_save (email_unique v) e ?sub (store w)
              = Inr (JObjectId (object_id e), store w @ [spread ?sub (system_fields e)])"
    unfolding store_save_Inr using sf nd em by simp
  have sub: "submit_form v e req w =
      (Some (Reply 200 (Success_id (success_message v) (JObjectId (object_id e)))),
       w\<lparr>store := store w @ [spread ?sub (system_fields e)]\<rparr>)"
    by (simp add: submit_form_def rc sv)
  have "\<And>c. c \<in> set categories \<Longrightarrow>
           map_of (spread ?sub (system_fields e)) c = Some (JFileList [])"
  proof -
    fix c assume c: "c \<in> set categories"
    have "files_under c (parts req) = []"
      using nf by (auto simp: files_under_def list_all_iff filter_empty_conv)
    then show "map_of (spread ?sub (system_fields e)) c = Some (JFileList [])"
      using stored_lists(1) [OF run c, of e] by simp
  qed
  then have "list_all (\<lambda>c. map_of (spread ?sub (system_fields e)) c = Some (JFileList []))
               categories"
    by (simp add: list_all_iff)
  then show "\<exists>doc. submit_form v e req w =
                 (Some (Reply 200 (Success_id (success_message v) (JObjectId (object_id e)))),
                  w\<lparr>store := store w @ [doc]\<rparr>)
              \<and> list_all (\<lambda>c. map_of doc c = Some (JFileList [])) categories"
    using sub by blast
qed

theorem six_lists_always_present_witness:
  "list_all (\<lambda>p. \<not> is_file p) (parts request2) \<and> parts_error request2 = None
   \<and> store_fault env2 = None
   \<and> map_option to_js (last_field Persisting ''email'' (parts request2))
        \<notin> set (map (\<lambda>d. map_of d ''email'') (store world1))
   \<and> (\<exists>doc. submit_form Persisting env2 request2 world1 =
                 (Some (Reply 200 (Success_id ''Form submitted successfully!'' (JObjectId 2))),
                  world1\<lparr>store := store world1 @ [doc]\<rparr>)
              \<and> list_all (\<lambda>c. map_of doc c = Some (JFileList [])) categories)"
proof -
  have h1: "list_all (\<lambda>p. \<not> is_file p) (parts request2)" by (simp add: request2_def)
  have h2: "parts_error request2 = None" by (simp add: request2_def)
  have h3: "store_fault env2 = None" by (simp add: env2_def)
  have h4: "map_option to_js (last_field Persisting ''email'' (parts request2))
        \<notin> set (map (\<lambda>d. map_of d ''email'') (store world1))"
    by (simp add: request2_def world1_def)
  have "\<exists>doc. submit_form Persisting env2 request2 world1 =
                 (Some (Reply 200 (Success_id (success_message Persisting)
                                     (JObjectId (object_id env2)))),
                  world1\<lparr>store := store world1 @ [doc]\<rparr>)
              \<and> list_all (\<lambda>c. map_of doc c = Some (JFileList [])) categories"
    using six_lists_always_present
      [where v = Persisting and req = request2 and w = world1 and e = env2
         and dir = "cwd env2" and body = "[]" and files = files_init and ?w1.0 = world1
         and c = "''identityDocument''"]
      h1 h2 h3 h4
    by blast
  then show ?thesis using h1 h2 h3 h4 by (simp add: env2_def)
qed

subsection \<open>The replies of the submit route\<close>

lemma submit_form_replies:
  "fst (submit_form v e req w) = None
   \<or> fst (submit_form v e req w) = Some (Reply 500 (Failure ''Internal server error''))
   \<or> fst (submit_form v e req w)
        = Some (Reply 200 (Success_id (success_message v) (JObjectId (object_id e))))"
proof -
  obtain r w1 where rc: "receive v (cwd e) req w = (r, w1)"
    by (cases "receive v (cwd e) req w")
  show ?thesis
  proof (cases r)
    case (Returned st)
    obtain body files where st: "st = (body, files)" by (cases st)
    show ?thesis
    proof (cases "store_save (email_unique v) e (assemble v req body files) (store w1)")
      case (Inl err)
      then show ?thesis using rc Returned st by (simp add: submit_form_def on_error_def)
    next
      case (Inr res)
      obtain ident st' where res: "res = (ident, st')" by (cases res)
      then have "ident = JObjectId (object_id e)"
        using Inr by (simp add: store_save_Inr)
      then show ?thesis using rc Returned st Inr res by (simp add: submit_form_def)
    qed
  next
    case (Thrown err)
    then show ?thesis using rc by (simp add: submit_form_def on_error_def)
  next
    case (Uncaught err)
    then show ?thesis using rc by (simp add: submit_form_def)
  qed
qed

lemma caught_error_reply:
  "fst (on_error v err w) = Some (Reply 500 (Failure ''Internal server error''))
   \<and> store (snd (on_error v err w)) = store w
   \<and> piped (snd (on_error v err w)) = piped w
   \<and> console (snd (on_error v err w)) = console w @ [log_line v err]"
  by (simp add: on_error_def)

text \<open>
  C1: in the metadata-only variant a file part under a field name that is none of the six
  categories is not dropped. On the request \<open>request1\<close>, whose last part is a file under
  the name \<^verbatim>\<open>avatar\<close>, \<^verbatim>\<open>files[part.fieldname]\<close> is undefined, the call of \<^verbatim>\<open>push\<close>
  throws, and the request is answered with status 500 and stores nothing; the persisting
  variant accepts the same request.
\<close>

theorem metadata_unrecognized_file_fails:
  "submit_form MetadataOnly env1 request1 world0 =
     (Some (Reply 500 (Failure ''Internal server error'')),
      \<lparr>store = [], piped = [],
       console = [log_line MetadataOnly
                    (TypeError (''Cannot read properties of undefined (reading ''
                                  @ quote ''push'' @ '')''))]\<rparr>)"
  by code_simp

text \<open>
  C8: an error of the write stream is not collapsed into the generic reply. On the request
  \<open>request_disk_full\<close>, whose file part meets a full disk while the handler awaits it, no
  listener of the handler receives the error of the write stream: the handler sends no
  reply at all, stores nothing and logs nothing.
\<close>

theorem storage_error_not_answered:
  "submit_form Persisting env1 request_disk_full world0 =
     (None,
      \<lparr>store = [], piped = [(''/srv/app/uploads/1700-cv.pdf'', ''hello'')], console = []\<rparr>)"
  by code_simp

lemma persisting_sink_drains:
  assumes "persisting_sink dir fname mime f se w = (Returned (fd, f'), w')"
  shows "content f' = content f" and "bytesRead f' = length (content f)"
    and "size_bytes fd = length (content f)"
  using assms unfolding persisting_sink_Returned by simp_all

text \<open>
  C2: the metadata-only sink does not do what the persisting sink does. The persisting
  sink returns only when the stream of the part has ended, and records the byte count
  of the drained stream (\<open>persisting_sink_drains\<close>). The metadata-only sink records the
  counter of the stream as it stands when the part is handed over and leaves the stream
  unread: on a stream of five bytes whose counter stands at zero, the recorded size is
  not the byte count of the stream and the stream is not drained.
\<close>

theorem metadata_sink_size_not_drained:
  "size_bytes (fst (metadata_sink ''id.pdf'' ''application/pdf'' stream5))
     \<noteq> length (content stream5)
   \<and> bytesRead (snd (metadata_sink ''id.pdf'' ''application/pdf'' stream5))
     \<noteq> length (content stream5)"
  by (simp add: metadata_sink_def stream5_def)

subsection \<open>The email of a submission\<close>

lemma assembled_email:
  assumes "run_parts v dir (parts req) ([], files_init) w = (Returned (body, files), w1)"
  shows "map_of (assemble v req body files) ''email''
           = map_option to_js (last_field v ''email'' (parts req))"
    and "map_of (spread (assemble v req body files) (system_fields e)) ''email''
           = map_option to_js (last_field v ''email'' (parts req))"
proof -
  have ok: "files_ok files" using run_parts_files(1) [OF assms files_ok_init] .
  have d: "distinct (map fst body)" using run_parts_body(2) [OF assms] by simp
  have "map_of files ''email'' = None"
  proof (cases "map_of files ''email''")
    case None then show ?thesis .
  next
    case (Some a)
    then have "''email'' \<in> set categories" using ok by (rule files_ok_lookup(2) [rotated])
    then show ?thesis by (simp add: categories_def)
  qed
  moreover have "map_of body ''email'' = map_option to_js (last_field v ''email'' (parts req))"
    using run_parts_body(1) [OF assms, of "''email''"] by (simp split: option.splits)
  ultimately show "map_of (assemble v req body files) ''email''
           = map_option to_js (last_field v ''email'' (parts req))"
    by (simp add: assemble_lookup [OF d ok])
  then show "map_of (spread (assemble v req body files) (system_fields e)) ''email''
           = map_option to_js (last_field v ''email'' (parts req))"
    by (simp add: system_fields_lookup)
qed

lemma submit_form_store:
  "store (snd (submit_form v e req w)) = store w
   \<or> (\<exists>doc. store (snd (submit_form v e req w)) = store w @ [doc]
         \<and> fst (submit_form v e req w)
             = Some (Reply 200 (Success_id (success_message v) (JObjectId (object_id e)))))"
proof -
  obtain r w1 where rc: "receive v (cwd e) req w = (r, w1)"
    by (cases "receive v (cwd e) req w")
  have w1: "store w1 = store w" using receive_world [of v "cwd e" req w] rc by simp
  show ?thesis
  proof (cases r)
    case (Returned st)
    obtain body files where st: "st = (body, files)" by (cases st)
    show ?thesis
    proof (cases "store_save (email_unique v) e (assemble v req body files) (store w1)")
      case (Inl err)
      then show ?thesis using rc Returned st w1 by (simp add: submit_form_def on_error_def)
    next
      case (Inr res)
      obtain ident st' where res: "res = (ident, st')" by (cases res)
      then have "ident = JObjectId (object_id e)"
        and "st' = store w @ [spread (assemble v req body files) (system_fields e)]"
        using Inr w1 by (simp_all add: store_save_Inr)
      then show ?thesis using rc Returned st Inr res by (simp add: submit_form_def)
    qed
  next
    case (Thrown err)
    then show ?thesis using rc w1 by (simp add: submit_form_def on_error_def)
  next
    case (Uncaught err)
    then show ?thesis using rc w1 by (simp add: submit_form_def)
  qed
qed

text \<open>
  C3: with the uniqueness constraint of the persisting variant's schema, let a first form
  whose email is \<open>x\<close> be saved (status 200) and let a second form have the same email.
  Then the first request stored exactly one document, with that email; the second request
  leaves the store as it is, whatever happens to it; if it reaches the save, the save
  fails with a persistence error and the reply is the generic 500; and afterwards exactly
  one stored document has the email \<open>x\<close>.
\<close>

theorem duplicate_email_rejected:
  assumes "submit_form Persisting e1 r1 w = (Some (Reply 200 js), w1)"
    and "last_field Persisting ''email'' (parts r1) = Some (Text x)"
    and "last_field Persisting ''email'' (parts r2) = Some (Text x)"
  shows "(\<exists>doc. store w1 = store w @ [doc] \<and> map_of doc ''email'' = Some (JString x))
       \<and> store (snd (submit_form Persisting e2 r2 w1)) = store w1
       \<and> length (filter (\<lambda>d. map_of d ''email'' = Some (JString x))
                   (store (snd (submit_form Persisting e2 r2 w1)))) = 1
       \<and> (receive Persisting (cwd e2) r2 w1 = (Returned (body2, files2), w2) \<longrightarrow>
            (\<exists>m. store_save (email_unique Persisting) e2
                    (assemble Persisting r2 body2 files2) (store w2)
                      = Inl (PersistenceError m)
                \<and> submit_form Persisting e2 r2 w1 =
                    (Some (Reply 500 (Failure ''Internal server error'')),
                     w2\<lparr>console := console w2 @ [log_line Persisting (PersistenceError m)]\<rparr>)))"
proof -
  from assms(1) obtain body1 files1 w1' where
    run1: "run_parts Persisting (cwd e1) (parts r1) ([], files_init) w
             = (Returned (body1, files1), w1')"
    and sv1: "store_save (email_unique Persisting) e1 (assemble Persisting r1 body1 files1) (store w)
           = Inr (JObjectId (object_id e1),
                  store w @ [spread (assemble Persisting r1 body1 files1) (system_fields e1)])"
    and w1: "w1 = w1'\<lparr>store := store w @ [spread (assemble Persisting r1 body1 files1) (system_fields e1)]\<rparr>"
    by (rule submit_form_accepted)
  let ?doc = "spread (assemble Persisting r1 body1 files1) (system_fields e1)"
  have st1: "store w1 = store w @ [?doc]" using w1 by simp
  have em1: "map_of ?doc ''email'' = Some (JString x)"
    using assembled_email(2) [OF run1, of e1] assms(2) by simp
  have "map_of (assemble Persisting r1 body1 files1) ''email'' = Some (JString x)"
    using assembled_email(1) [OF run1] assms(2) by simp
  then have fresh: "Some (JString x) \<notin> set (map (\<lambda>d. map_of d ''email'') (store w))"
    using sv1 unfolding store_save_Inr by simp
  then have "filter (\<lambda>d. map_of d ''email'' = Some (JString x)) (store w) = []"
    by (force simp: filter_empty_conv)
  then have one: "length (filter (\<lambda>d. map_of d ''email'' = Some (JString x)) (store w1)) = 1"
    using st1 em1 by simp
  have dup: "Some (JString x) \<in> set (map (\<lambda>d. map_of d ''email'') (store w1))"
    using st1 em1 by force
  have second: "receive Persisting (cwd e2) r2 w1 = (Returned (b, f), w3) \<Longrightarrow>
      \<exists>m. store_save (email_unique Persisting) e2 (assemble Persisting r2 b f) (store w3)
              = Inl (PersistenceError m)
          \<and> submit_form Persisting e2 r2 w1 =
              (Some (Reply 500 (Failure ''Internal server error'')),
               w3\<lparr>console := console w3 @ [log_line Persisting (PersistenceError m)]\<rparr>)"
    for b f w3
  proof -
    assume rc: "receive Persisting (cwd e2) r2 w1 = (Returned (b, f), w3)"
    then have run2: "run_parts Persisting (cwd e2) (parts r2) ([], files_init) w1
                       = (Returned (b, f), w3)"
      by (simp add: receive_Returned)
    have w3: "store w3 = store w1"
      using receive_world [of Persisting "cwd e2" r2 w1] rc by simp
    have em2: "map_of (assemble Persisting r2 b f) ''email'' = Some (JString x)"
      using assembled_email(1) [OF run2] assms(3) by simp
    obtain m where sv: "store_save (email_unique Persisting) e2 (assemble Persisting r2 b f)
                          (store w3) = Inl (PersistenceError m)"
      using em2 dup w3 by (cases "store_fault e2") (auto simp: store_save_def)
    then show ?thesis
      using rc by (auto simp: submit_form_def on_error_def)
  qed
  have unchanged: "store (snd (submit_form Persisting e2 r2 w1)) = store w1"
  proof -
    obtain r w3 where rc: "receive Persisting (cwd e2) r2 w1 = (r, w3)"
      by (cases "receive Persisting (cwd e2) r2 w1")
    have w3: "store w3 = store w1"
      using receive_world [of Persisting "cwd e2" r2 w1] rc by simp
    show ?thesis
    proof (cases r)
      case (Returned st)
      obtain b f where "st = (b, f)" by (cases st)
      then show ?thesis using second [of b f w3] rc Returned w3 by auto
    next
      case (Thrown err)
      then show ?thesis using rc w3 by (simp add: submit_form_def on_error_def)
    next
      case (Uncaught err)
      then show ?thesis using rc w3 by (simp add: submit_form_def)
    qed
  qed
  show ?thesis
    using st1 em1 unchanged one second [of body2 files2 w2] by auto
qed

lemma request_dup_rejected:
  "submit_form Persisting env2 request_dup world1 =
     (Some (Reply 500 (Failure ''Internal server error'')),
      world1\<lparr>console := [''Error submitting form: E11000 duplicate key error'']\<rparr>)"
  by code_simp

theorem duplicate_email_rejected_witness:
  "submit_form Persisting env1 request1 world0 =
     (Some (Reply 200 (Success_id ''Form submitted successfully!'' (JObjectId 1))), world1)
   \<and> last_field Persisting ''email'' (parts request1) = Some (Text ''a@x.com'')
   \<and> last_field Persisting ''email'' (parts request_dup) = Some (Text ''a@x.com'')
   \<and> receive Persisting (cwd env2) request_dup world1 =
       (Returned ([(''firstName'', JString ''Anne''), (''email'', JString ''a@x.com'')],
                  files_init), world1)
   \<and> submit_form Persisting env2 request_dup world1 =
       (Some (Reply 500 (Failure ''Internal server error'')),
        world1\<lparr>console := [''Error submitting form: E11000 duplicate key error'']\<rparr>)
   \<and> store (snd (submit_form Persisting env2 request_dup world1)) = store world1
   \<and> length (filter (\<lambda>d. map_of d ''email'' = Some (JString ''a@x.com''))
               (store (snd (submit_form Persisting env2 request_dup world1)))) = 1"
proof -
  have h2: "last_field Persisting ''email'' (parts request1) = Some (Text ''a@x.com'')"
    by (simp add: request1_def)
  have h3: "last_field Persisting ''email'' (parts request_dup) = Some (Text ''a@x.com'')"
    by (simp add: request_dup_def)
  have h4: "receive Persisting (cwd env2) request_dup world1 =
       (Returned ([(''firstName'', JString ''Anne''), (''email'', JString ''a@x.com'')],
                  files_init), world1)"
    by (simp add: receive_def request_dup_def js_set_def)
  show ?thesis
    using duplicate_email_rejected [OF request1_world1 h2 h3,
        of env2 "[(''firstName'', JString ''Anne''), (''email'', JString ''a@x.com'')]"
           files_init world1]
      request1_world1 request_dup_rejected h2 h3 h4
    by simp
qed

subsection \<open>Scalar fields\<close>

lemma last_field_append:
  "last_field v k (ps1 @ ps2) =
     (case last_field v k ps2 of Some x \<Rightarrow> Some x | None \<Rightarrow> last_field v k ps1)"
  by (induction ps1) (auto split: option.splits)

lemma last_field_none:
  "list_all (\<lambda>p. is_file p \<or> fieldname p \<noteq> k) ps \<Longrightarrow> last_field v k ps = None"
proof (induction ps)
  case Nil
  then show ?case by simp
next
  case (Cons p ps)
  have "\<not> (stores_field v p \<and> fieldname p = k)"
    using Cons.prems by (cases p) auto
  then show ?case using Cons by simp
qed

text \<open>
  C7, as stated, fails: a scalar part named \<^verbatim>\<open>userAgent\<close> is stored in \<^verbatim>\<open>body\<close>, the
  last one winning, but the assembled submission carries the user agent of the request
  headers under that name, not the value of the part.
\<close>

theorem scalar_overridden_counterexample:
  "receive Persisting ''/srv/app'' request_spoof world0 =
     (Returned ([(''userAgent'', JString ''spoofed'')], files_init), world0)
   \<and> map_of (assemble Persisting request_spoof [(''userAgent'', JString ''spoofed'')] files_init)
        ''userAgent'' = Some (JString ''curl'')
   \<and> map_of (assemble Persisting request_spoof [(''userAgent'', JString ''spoofed'')] files_init)
        ''userAgent'' \<noteq> Some (JString ''spoofed'')"
  by code_simp

text \<open>
  C7, amended: a scalar part with a text value and a non-empty field name other than
  \<^verbatim>\<open>__proto__\<close> is stored in \<^verbatim>\<open>body\<close> under its field name when it is handled; when
  no later scalar part of the request has the same field name, its value is the one
  \<^verbatim>\<open>body\<close> holds under that name after the loop (last writer wins), and it is the one
  present in the assembled submission unless the name is one of the six category names,
  \<^verbatim>\<open>ipAddress\<close> or \<^verbatim>\<open>userAgent\<close>, which the assembler overrides with the file lists
  and the provenance of the request.
\<close>

theorem last_writer_wins:
  assumes "k \<noteq> []" and "k \<noteq> ''__proto__''"
  shows "(\<exists>body1. handle_part v dir (FieldPart k (Text s)) (body0, files0) w0
                     = (Returned (body1, files0), w0)
                 \<and> map_of body1 k = Some (JString s))
       \<and> (receive v dir req w = (Returned (body, files), w') \<longrightarrow>
          parts req = ps1 @ FieldPart k (Text s) # ps2 \<longrightarrow>
          list_all (\<lambda>p. is_file p \<or> fieldname p \<noteq> k) ps2 \<longrightarrow>
            map_of body k = Some (JString s)
            \<and> (k \<notin> set categories \<longrightarrow> k \<noteq> ''ipAddress'' \<longrightarrow> k \<noteq> ''userAgent'' \<longrightarrow>
                 map_of (assemble v req body files) k = Some (JString s)))"
proof (intro conjI impI)
  have "handle_part v dir (FieldPart k (Text s)) (body0, files0) w0
          = (Returned (js_set body0 k (JString s), files0), w0)"
    using assms(1) by (cases v) simp_all
  moreover have "map_of (js_set body0 k (JString s)) k = Some (JString s)"
    using assms(2) by (simp add: map_of_js_set)
  ultimately show "\<exists>body1. handle_part v dir (FieldPart k (Text s)) (body0, files0) w0
                     = (Returned (body1, files0), w0)
                 \<and> map_of body1 k = Some (JString s)"
    by blast
next
  assume rc: "receive v dir req w = (Returned (body, files), w')"
    and ps: "parts req = ps1 @ FieldPart k (Text s) # ps2"
    and later: "list_all (\<lambda>p. is_file p \<or> fieldname p \<noteq> k) ps2"
  have run: "run_parts v dir (parts req) ([], files_init) w = (Returned (body, files), w')"
    using rc by (simp add: receive_Returned)
  have "stores_field v (FieldPart k (Text s))" using assms(1) by (cases v) simp_all
  then have "last_field v k (FieldPart k (Text s) # ps2) = Some (Text s)"
    using last_field_none [OF later, of v] by simp
  then have lf: "last_field v k (parts req) = Some (Text s)"
    unfolding ps by (simp add: last_field_append [of v k ps1])
  show b: "map_of body k = Some (JString s)"
    using run_parts_body(1) [OF run assms(2)] lf by simp
  assume "k \<notin> set categories" and "k \<noteq> ''ipAddress''" and "k \<noteq> ''userAgent''"
  have ok: "files_ok files" using run_parts_files(1) [OF run files_ok_init] .
  have d: "distinct (map fst body)" using run_parts_body(2) [OF run] by simp
  have "map_of files k = None"
  proof (cases "map_of files k")
    case None then show ?thesis .
  next
    case (Some a)
    then have "k \<in> set categories" using ok by (rule files_ok_lookup(2) [rotated])
    then show ?thesis using \<open>k \<notin> set categories\<close> by simp
  qed
  then show "map_of (assemble v req body files) k = Some (JString s)"
    using b \<open>k \<noteq> ''ipAddress''\<close> \<open>k \<noteq> ''userAgent''\<close>
    by (simp add: assemble_lookup [OF d ok])
qed

theorem last_writer_wins_witness:
  "''city'' \<noteq> [] \<and> ''city'' \<noteq> ''__proto__''
   \<and> receive MetadataOnly ''/srv/app'' request_twice world0 =
       (Returned ([(''city'', JString ''Basel''), (''phone'', JString ''123'')], files_init),
        world0)
   \<and> parts request_twice
       = [FieldPart ''city'' (Text ''Bern'')] @ FieldPart ''city'' (Text ''Basel'')
           # [FieldPart ''phone'' (Text ''123'')]
   \<and> list_all (\<lambda>p. is_file p \<or> fieldname p \<noteq> ''city'') [FieldPart ''phone'' (Text ''123'')]
   \<and> ''city'' \<notin> set categories
   \<and> map_of [(''city'', JString ''Basel''), (''phone'', JString ''123'')] ''city''
       = Some (JString ''Basel'')
   \<and> map_of (assemble MetadataOnly request_twice
               [(''city'', JString ''Basel''), (''phone'', JString ''123'')] files_init) ''city''
       = Some (JString ''Basel'')"
proof -
  have h1: "''city'' \<noteq> []" and h2: "''city'' \<noteq> ''__proto__''" by simp_all
  have h3: "receive MetadataOnly ''/srv/app'' request_twice world0 =
       (Returned ([(''city'', JString ''Basel''), (''phone'', JString ''123'')], files_init),
        world0)"
    by (simp add: receive_def request_twice_def js_set_def)
  have h4: "parts request_twice
       = [FieldPart ''city'' (Text ''Bern'')] @ FieldPart ''city'' (Text ''Basel'')
           # [FieldPart ''phone'' (Text ''123'')]"
    by (simp add: request_twice_def)
  have h5: "list_all (\<lambda>p. is_file p \<or> fieldname p \<noteq> ''city'') [FieldPart ''phone'' (Text ''123'')]"
    by simp
  have h6: "''city'' \<notin> set categories" by (simp add: categories_def)
  show ?thesis
    using last_writer_wins [OF h1 h2,
        where v = MetadataOnly and dir = "''/srv/app''" and req = request_twice and w = world0
          and body = "[(''city'', JString ''Basel''), (''phone'', JString ''123'')]"
          and files = files_init and w' = world0
          and ?ps1.0 = "[FieldPart ''city'' (Text ''Bern'')]" and s = "''Basel''"
          and ?ps2.0 = "[FieldPart ''phone'' (Text ''123'')]"
          and ?body0.0 = "[]" and ?files0.0 = files_init and ?w0.0 = world0]
      h3 h4 h5 h6
    by simp
qed

subsection \<open>Stored documents\<close>

lemma saved_has_system_fields: "has_system_fields (spread sub (system_fields e))"
  by (simp add: has_system_fields_def keys_spread system_fields_def)

lemma submit_form_system_fields:
  assumes "list_all has_system_fields (store w)"
  shows "list_all has_system_fields (store (snd (submit_form v e req w)))"
proof -
  obtain r w1 where rc: "receive v (cwd e) req w = (r, w1)"
    by (cases "receive v (cwd e) req w")
  have w1: "store w1 = store w" using receive_world [of v "cwd e" req w] rc by simp
  show ?thesis
  proof (cases r)
    case (Returned st)
    obtain body files where st: "st = (body, files)" by (cases st)
    show ?thesis
    proof (cases "store_save (email_unique v) e (assemble v req body files) (store w1)")
      case (Inl err)
      then show ?thesis
        using rc Returned st w1 assms by (simp add: submit_form_def on_error_def)
    next
      case (Inr res)
      obtain ident st' where res: "res = (ident, st')" by (cases res)
      then have "st' = store w @ [spread (assemble v req body files) (system_fields e)]"
        using Inr w1 by (simp add: store_save_Inr)
      then show ?thesis
        using rc Returned st Inr res assms
        by (simp add: submit_form_def saved_has_system_fields)
    qed
  next
    case (Thrown err)
    then show ?thesis using rc w1 assms by (simp add: submit_form_def on_error_def)
  next
    case (Uncaught err)
    then show ?thesis using rc w1 assms by (simp add: submit_form_def)
  qed
qed

lemma serve_system_fields:
  "list_all has_system_fields (store w) \<Longrightarrow> list_all has_system_fields (store (serve v rs w))"
proof (induction rs arbitrary: w)
  case Nil
  then show ?case by simp
next
  case (Cons er rs)
  have "list_all has_system_fields (store (snd (submit_form v (fst er) (snd er) w)))"
    using Cons.prems by (rule submit_form_system_fields)
  then show ?case using Cons.IH by simp
qed

text \<open>
  C10: after any sequence of requests to the submit route of a server that started with an
  empty collection, every record the listing returns lacks \<^verbatim>\<open>updatedAt\<close> (as well as
  \<^verbatim>\<open>__v\<close>, \<^verbatim>\<open>ipAddress\<close> and \<^verbatim>\<open>userAgent\<close>) and still has \<^verbatim>\<open>createdAt\<close> and
  \<^verbatim>\<open>_id\<close>.
\<close>

theorem listing_keeps_createdAt_and_id:
  assumes "store w0 = []"
    and "get_submissions v None (serve v rs w0) = (Reply 200 (Success_list n ds), w')"
    and "d \<in> set ds"
  shows "''updatedAt'' \<notin> fst ` set d \<and> ''__v'' \<notin> fst ` set d
       \<and> ''ipAddress'' \<notin> fst ` set d \<and> ''userAgent'' \<notin> fst ` set d
       \<and> ''createdAt'' \<in> fst ` set d \<and> ''_id'' \<in> fst ` set d"
proof -
  let ?w = "serve v rs w0"
  have ds: "ds = listRecent (store ?w)"
    using assms(2) by (auto simp: get_submissions_def Let_def)
  then obtain d0 where d0: "d0 \<in> set (store ?w)"
    and d: "d = select_minus [''__v'', ''updatedAt'', ''ipAddress'', ''userAgent''] d0"
    using assms(3) by (auto simp: listRecent_set)
  have "list_all has_system_fields (store ?w)"
    using assms(1) by (intro serve_system_fields) simp
  then have "has_system_fields d0" using d0 by (simp add: list_all_iff)
  then show ?thesis
    unfolding d select_minus_keys by (simp add: has_system_fields_def)
qed

lemma serve_request1: "serve Persisting [(env1, request1)] world0 = world1"
  by (simp add: request1_world1)

theorem listing_keeps_createdAt_and_id_witness:
  "store world0 = []
   \<and> get_submissions Persisting None (serve Persisting [(env1, request1)] world0) =
       (Reply 200 (Success_list 1 (listRecent (store world1))), world1)
   \<and> hd (listRecent (store world1)) \<in> set (listRecent (store world1))
   \<and> ''updatedAt'' \<notin> fst ` set (hd (listRecent (store world1)))
   \<and> ''createdAt'' \<in> fst ` set (hd (listRecent (store world1)))
   \<and> ''_id'' \<in> fst ` set (hd (listRecent (store world1)))"
proof -
  have h1: "store world0 = []" by (simp add: world0_def)
  have h2: "get_submissions Persisting None (serve Persisting [(env1, request1)] world0) =
       (Reply 200 (Success_list 1 (listRecent (store world1))), world1)"
    unfolding serve_request1 by (simp add: get_submissions_def Let_def listRecent_def world1_def)
  have h3: "hd (listRecent (store world1)) \<in> set (listRecent (store world1))"
    by (simp add: listRecent_def world1_def)
  show ?thesis
    using listing_keeps_createdAt_and_id [OF h1 h2 h3] h1 h2 h3 by simp
qed

subsection \<open>Write streams\<close>

lemma pipe_and_wait_piped:
  "piped (snd (pipe_and_wait target f se w)) = piped w @ [(target, content f)]"
  by (simp add: pipe_and_wait_def Let_def split: option.splits)

lemma persisting_sink_piped:
  "piped (snd (persisting_sink dir fname mime f se w))
     = piped w @ [(savePath dir (date_now se) fname, content f)]"
proof -
  obtain r w1 where pw: "pipe_and_wait (savePath dir (date_now se) fname) f se w = (r, w1)"
    by (cases "pipe_and_wait (savePath dir (date_now se) fname) f se w")
  then have "piped w1 = piped w @ [(savePath dir (date_now se) fname, content f)]"
    using pipe_and_wait_piped [of "savePath dir (date_now se) fname" f se w] by simp
  then show ?thesis
    using pw by (cases r) (simp_all add: persisting_sink_def Let_def)
qed

lemma handle_part_file_piped:
  "piped (snd (handle_part Persisting dir (FilePart name fname mime f se) st w))
     = piped w @ [(savePath dir (date_now se) fname, content f)]"
proof -
  obtain body files where st: "st = (body, files)" by (cases st)
  obtain r w1 where ps: "persisting_sink dir fname mime f se w = (r, w1)"
    by (cases "persisting_sink dir fname mime f se w")
  then have "piped w1 = piped w @ [(savePath dir (date_now se) fname, content f)]"
    using persisting_sink_piped [of dir fname mime f se w] by simp
  then show ?thesis
    using st ps by (cases r) (auto split: sum.splits)
qed

lemma handle_part_piped:
  assumes "handle_part Persisting dir p st w = (Returned st', w')"
  shows "piped w' = piped w @ map (\<lambda>p. (target_of dir p, content (part_file p)))
                              (filter is_file [p])"
proof (cases p)
  case (FieldPart name x)
  obtain body files where "st = (body, files)" by (cases st)
  then show ?thesis using assms FieldPart by auto
next
  case (FilePart name fname mime f se)
  then show ?thesis
    using handle_part_file_piped [of dir name fname mime f se st w] assms
    by (simp add: target_of_def)
qed

lemma run_parts_piped:
  assumes "run_parts Persisting dir ps st w = (Returned st', w')"
  shows "piped w' = piped w @ map (\<lambda>p. (target_of dir p, content (part_file p)))
                              (filter is_file ps)"
  using assms
proof (induction ps arbitrary: st w)
  case Nil
  then show ?case by simp
next
  case (Cons p ps)
  from Cons.prems obtain st1 w1
    where h: "handle_part Persisting dir p st w = (Returned st1, w1)"
      and r: "run_parts Persisting dir ps st1 w1 = (Returned st', w')"
    by (rule run_parts_Cons_Returned)
  show ?case
    using Cons.IH [OF r] handle_part_piped [OF h] by simp
qed

text \<open>
  C9, as stated, fails: the file of a dropped part can be referenced by a file record.
  In \<open>request_collide\<close> a file under the name \<^verbatim>\<open>avatar\<close> and a file under
  \<^verbatim>\<open>identityDocument\<close> have the same file name and meet the same reading of the clock,
  hence the same save path; the request is accepted, and the record stored under
  \<^verbatim>\<open>identityDocument\<close> has the path into which the bytes of the dropped part were
  piped.
\<close>

theorem orphan_referenced_counterexample:
  "fst (submit_form Persisting env1 request_collide world0)
     = Some (Reply 200 (Success_id ''Form submitted successfully!'' (JObjectId 1)))
   \<and> savePath (cwd env1) (date_now sink1) ''a.pdf'' = ''/srv/app/uploads/1700-a.pdf''
   \<and> piped (snd (submit_form Persisting env1 request_collide world0))
       = [(''/srv/app/uploads/1700-a.pdf'', ''other bytes''),
          (''/srv/app/uploads/1700-a.pdf'', ''hello'')]
   \<and> map_of (hd (store (snd (submit_form Persisting env1 request_collide world0))))
        ''identityDocument''
       = Some (JFileList
           [\<lparr>originalname = ''a.pdf'', mimetype = ''application/pdf'', size_bytes = 5,
             path = Some ''/srv/app/uploads/1700-a.pdf'', filename = Some ''1700-a.pdf''\<rparr>])"
  by code_simp

text \<open>
  C9, amended: in the persisting variant the handler opens a write stream on the save path
  of every file part and pipes the stream of the part into it before it looks at the
  field name, whatever the field name is. When a request is accepted (status 200), this
  has been done for each of its file parts under a field name that is none of the six
  categories, and such a part has no file record: every list of file records of the
  stored submission stands under a category name and holds exactly the records of the
  file parts sent under that name.
\<close>

theorem unrecognized_upload_not_recorded:
  "piped (snd (handle_part Persisting dir (FilePart name fname mime f se) st w))
     = piped w @ [(savePath dir (date_now se) fname, content f)]
   \<and> (submit_form Persisting e req w0 = (Some (Reply 200 js), w') \<longrightarrow>
      FilePart name fname mime f se \<in> set (parts req) \<longrightarrow> name \<notin> set categories \<longrightarrow>
        (savePath (cwd e) (date_now se) fname, content f) \<in> set (piped w')
        \<and> (\<exists>doc. store w' = store w0 @ [doc]
              \<and> (\<forall>c xs. map_of doc c = Some (JFileList xs) \<longrightarrow>
                    c \<in> set categories \<and> c \<noteq> name
                    \<and> xs = map (expected_record Persisting (cwd e))
                             (files_under c (parts req)))))"
proof (intro conjI impI)
  show "piped (snd (handle_part Persisting dir (FilePart name fname mime f se) st w))
     = piped w @ [(savePath dir (date_now se) fname, content f)]"
    by (rule handle_part_file_piped)
next
  assume acc: "submit_form Persisting e req w0 = (Some (Reply 200 js), w')"
    and mem: "FilePart name fname mime f se \<in> set (parts req)"
    and unrec: "name \<notin> set categories"
  let ?u = "FilePart name fname mime f se"
  from acc obtain body files w1 where
    run: "run_parts Persisting (cwd e) (parts req) ([], files_init) w0 = (Returned (body, files), w1)"
    and w': "w' = w1\<lparr>store := store w0 @ [spread (assemble Persisting req body files) (system_fields e)]\<rparr>"
    by (rule submit_form_accepted)
  let ?doc = "spread (assemble Persisting req body files) (system_fields e)"
  have "piped w' = piped w0 @ map (\<lambda>p. (target_of (cwd e) p, content (part_file p)))
                                 (filter is_file (parts req))"
    using run_parts_piped [OF run] w' by simp
  moreover have "(target_of (cwd e) ?u, content (part_file ?u))
      \<in> set (map (\<lambda>p. (target_of (cwd e) p, content (part_file p))) (filter is_file (parts req)))"
    using mem by force
  ultimately show "(savePath (cwd e) (date_now se) fname, content f) \<in> set (piped w')"
    by (simp add: target_of_def)
  have lists: "c \<in> set categories \<and> c \<noteq> name
      \<and> xs = map (expected_record Persisting (cwd e)) (files_under c (parts req))"
    if c: "map_of ?doc c = Some (JFileList xs)" for c xs
  proof -
    have cat: "c \<in> set categories" using stored_lists(2) [OF run c] .
    moreover have "xs = map (expected_record Persisting (cwd e)) (files_under c (parts req))"
      using stored_lists(1) [OF run cat, of e] c by simp
    ultimately show ?thesis using unrec by auto
  qed
  have "store w' = store w0 @ [?doc]" using w' by simp
  moreover have "\<forall>c xs. map_of ?doc c = Some (JFileList xs) \<longrightarrow>
                    c \<in> set categories \<and> c \<noteq> name
                    \<and> xs = map (expected_record Persisting (cwd e))
                             (files_under c (parts req))"
    using lists by blast
  ultimately show "\<exists>doc. store w' = store w0 @ [doc]
              \<and> (\<forall>c xs. map_of doc c = Some (JFileList xs) \<longrightarrow>
                    c \<in> set categories \<and> c \<noteq> name
                    \<and> xs = map (expected_record Persisting (cwd e))
                             (files_under c (parts req)))"
    by blast
qed

theorem unrecognized_upload_not_recorded_witness:
  "submit_form Persisting env1 request1 world0 =
     (Some (Reply 200 (Success_id ''Form submitted successfully!'' (JObjectId 1))), world1)
   \<and> FilePart ''avatar'' ''me.png'' ''image/png'' stream5 sink1 \<in> set (parts request1)
   \<and> ''avatar'' \<notin> set categories
   \<and> (savePath (cwd env1) (date_now sink1) ''me.png'', content stream5) \<in> set (piped world1)
   \<and> piped (snd (handle_part Persisting (cwd env1)
                   (FilePart ''avatar'' ''me.png'' ''image/png'' stream5 sink1)
                   ([], files_init) world0))
       = piped world0 @ [(savePath (cwd env1) (date_now sink1) ''me.png'', content stream5)]
   \<and> (\<exists>doc. store world1 = store world0 @ [doc]
         \<and> map_of doc ''identityDocument''
             = Some (JFileList (map (expected_record Persisting (cwd env1))
                                  (files_under ''identityDocument'' (parts request1)))))"
proof -
  have h2: "FilePart ''avatar'' ''me.png'' ''image/png'' stream5 sink1 \<in> set (parts request1)"
    by (simp add: request1_def)
  have h3: "''avatar'' \<notin> set categories" by (simp add: categories_def)
  note t = unrecognized_upload_not_recorded
    [where dir = "cwd env1" and name = "''avatar''" and fname = "''me.png''"
       and mime = "''image/png''" and f = stream5 and se = sink1 and st = "([], files_init)"
       and w = world0 and e = env1 and req = request1 and ?w0.0 = world0 and w' = world1
       and js = "Success_id ''Form submitted successfully!'' (JObjectId 1)"]
  have step: "piped (snd (handle_part Persisting (cwd env1)
                   (FilePart ''avatar'' ''me.png'' ''image/png'' stream5 sink1)
                   ([], files_init) world0))
       = piped world0 @ [(savePath (cwd env1) (date_now sink1) ''me.png'', content stream5)]"
    using t by (rule conjunct1)
  have rest: "(savePath (cwd env1) (date_now sink1) ''me.png'', content stream5) \<in> set (piped world1)
        \<and> (\<exists>doc. store world1 = store world0 @ [doc]
              \<and> (\<forall>c xs. map_of doc c = Some (JFileList xs) \<longrightarrow>
                    c \<in> set categories \<and> c \<noteq> ''avatar''
                    \<and> xs = map (expected_record Persisting (cwd env1))
                             (files_under c (parts request1))))"
    using t request1_world1 h2 h3 by blast
  then obtain doc where d: "store world1 = store world0 @ [doc]"
    and all: "\<forall>c xs. map_of doc c = Some (JFileList xs) \<longrightarrow>
                    c \<in> set categories \<and> c \<noteq> ''avatar''
                    \<and> xs = map (expected_record Persisting (cwd env1))
                             (files_under c (parts request1))"
    by blast
  have "doc = hd (store world1)" using d by (simp add: world0_def)
  then have "\<exists>xs. map_of doc ''identityDocument'' = Some (JFileList xs)"
    by (simp add: world1_def)
  then have "map_of doc ''identityDocument''
             = Some (JFileList (map (expected_record Persisting (cwd env1))
                                  (files_under ''identityDocument'' (parts request1))))"
    using all by blast
  then have ex: "\<exists>doc. store world1 = store world0 @ [doc]
         \<and> map_of doc ''identityDocument''
             = Some (JFileList (map (expected_record Persisting (cwd env1))
                                  (files_under ''identityDocument'' (parts request1))))"
    using d by blast
  show ?thesis
    using request1_world1 h2 h3 rest step ex by (intro conjI) blast+
qed

end
